theory Spec2Isabelle
  imports Main
begin

section \<open>Errors and the NumPy primitives the jagged array is written with\<close>

text \<open>
  The exceptions that \<^verbatim>\<open>awkward/array/jagged.py\<close> raises itself, or lets
  NumPy raise, are values; a computation that can raise returns \<open>error + 'a\<close>
  with \<open>Inl\<close> the exception.
\<close>

datatype error = ValueError | IndexError | TypeError | NameError | NotImplementedError

fun bind_err :: "error + 'a \<Rightarrow> ('a \<Rightarrow> error + 'b) \<Rightarrow> error + 'b" where
  "bind_err (Inl e) f = Inl e"
| "bind_err (Inr x) f = f x"

text \<open>
  Index arrays (\<^verbatim>\<open>INDEXTYPE\<close>, 64-bit) are one-dimensional lists of
  \<open>int\<close>; content is a list over any element type. A basic slice
  \<^verbatim>\<open>xs[a:b]\<close> never raises: a negative bound counts from the end and
  both bounds are clipped to the array.
\<close>

definition slice_bound :: "int \<Rightarrow> int \<Rightarrow> nat" where
  "slice_bound n i = nat (if i < 0 then max 0 (i + n) else min i n)"

definition py_slice :: "'a list \<Rightarrow> int \<Rightarrow> int \<Rightarrow> 'a list" where
  "py_slice xs a b =
     (let n = int (length xs); s = slice_bound n a; e = slice_bound n b
      in take (e - s) (drop s xs))"

text \<open>\<^verbatim>\<open>xs[i]\<close> with one integer: negative indices wrap once, anything
  else out of range is an IndexError.\<close>

definition np_item :: "'a list \<Rightarrow> int \<Rightarrow> error + 'a" where
  "np_item xs i =
     (let n = int (length xs); j = (if i < 0 then i + n else i)
      in if 0 \<le> j \<and> j < n then Inr (xs ! nat j) else Inl IndexError)"

text \<open>\<^verbatim>\<open>xs[idx]\<close> with an integer array (fancy indexing): every index is
  read as \<open>np_item\<close> reads it.\<close>

fun np_take :: "'a list \<Rightarrow> int list \<Rightarrow> error + 'a list" where
  "np_take xs [] = Inr []"
| "np_take xs (i # is) =
     bind_err (np_item xs i) (\<lambda>x. bind_err (np_take xs is) (\<lambda>r. Inr (x # r)))"

text \<open>\<^verbatim>\<open>xs[mask]\<close> with a boolean array: the mask must be as long as the
  array; the selected items keep their order.\<close>

definition np_mask :: "'a list \<Rightarrow> bool list \<Rightarrow> error + 'a list" where
  "np_mask xs m =
     (if length m = length xs then Inr (map fst (filter snd (zip xs m)))
      else Inl IndexError)"

text \<open>An elementwise binary operator on two one-dimensional arrays, with
  NumPy's broadcasting: equal lengths, or one operand of length one.\<close>

definition np_binop :: "('a \<Rightarrow> 'b \<Rightarrow> 'c) \<Rightarrow> 'a list \<Rightarrow> 'b list \<Rightarrow> error + 'c list" where
  "np_binop f xs ys =
     (if length xs = length ys then Inr (map2 f xs ys)
      else if length xs = 1 then Inr (map (f (hd xs)) ys)
      else if length ys = 1 then Inr (map (\<lambda>x. f x (hd ys)) xs)
      else Inl ValueError)"

text \<open>\<^verbatim>\<open>numpy.array_equal\<close>: same shape and same elements.\<close>

definition array_equal :: "'a list \<Rightarrow> 'a list \<Rightarrow> bool" where
  "array_equal xs ys = (xs = ys)"

fun cumsum_from :: "int \<Rightarrow> int list \<Rightarrow> int list" where
  "cumsum_from acc [] = []"
| "cumsum_from acc (x # xs) = (acc + x) # cumsum_from (acc + x) xs"

text \<open>
  Modelled from the spec: \<^verbatim>\<open>awkward.util.counts2offsets\<close> is not among the
  sources; the spec gives counts \<open>\<rightarrow>\<close> offsets as the prefix sum with a leading 0.
\<close>

definition counts2offsets :: "int list \<Rightarrow> int list" where
  "counts2offsets cs = 0 # cumsum_from 0 cs"

section \<open>The jagged array\<close>

text \<open>
  The object's attributes: \<^verbatim>\<open>_starts\<close>, \<^verbatim>\<open>_stops\<close>, \<^verbatim>\<open>_content\<close>,
  the three caches \<^verbatim>\<open>_offsets\<close>, \<^verbatim>\<open>_counts\<close>, \<^verbatim>\<open>_parents\<close>
  (\<open>None\<close> when not computed) and the flag \<^verbatim>\<open>_isvalid\<close>. Starts and stops
  are one-dimensional integer arrays here, so the three TypeError checks of
  \<^verbatim>\<open>_validstartsstops\<close> (no dimension, non-integer dtype, different number of
  dimensions) cannot fire; its length check is the one that remains.
\<close>

record 'a JaggedArray =
  starts :: "int list"
  stops :: "int list"
  content :: "'a list"
  offsets_cache :: "int list option"
  counts_cache :: "int list option"
  parents_cache :: "int list option"
  isvalid :: bool

definition validstartsstops :: "int list \<Rightarrow> int list \<Rightarrow> error + unit" where
  "validstartsstops sts stp =
     (if length sts > length stp then Inl ValueError else Inr ())"

definition valid :: "('a, 'z) JaggedArray_scheme \<Rightarrow> error + ('a, 'z) JaggedArray_scheme" where
  "valid a =
     (if \<not> isvalid a
      then bind_err (validstartsstops (starts a) (stops a)) (\<lambda>_. Inr (a\<lparr>isvalid := True\<rparr>))
      else Inr a)"

subsection \<open>Setters\<close>

definition starts_setter :: "'a JaggedArray \<Rightarrow> int list \<Rightarrow> error + 'a JaggedArray" where
  "starts_setter a v =
     (if \<exists>x \<in> set v. x < 0 then Inl ValueError
      else Inr (a\<lparr>starts := v, offsets_cache := None, counts_cache := None,
                  parents_cache := None, isvalid := False\<rparr>))"

definition stops_setter :: "'a JaggedArray \<Rightarrow> int list \<Rightarrow> error + 'a JaggedArray" where
  "stops_setter a v =
     (if \<exists>x \<in> set v. x < 0 then Inl ValueError
      else Inr (a\<lparr>stops := v, offsets_cache := None, counts_cache := None,
                  parents_cache := None, isvalid := False\<rparr>))"

text \<open>The content setter rebinds \<^verbatim>\<open>_content\<close> and clears the flag; it
  touches no cache. The new content may be of another element type.\<close>

definition content_setter :: "'a JaggedArray \<Rightarrow> 'b list \<Rightarrow> error + 'b JaggedArray" where
  "content_setter a v =
     Inr \<lparr>starts = starts a, stops = stops a, content = v,
          offsets_cache = offsets_cache a, counts_cache = counts_cache a,
          parents_cache = parents_cache a, isvalid = False\<rparr>"

definition offsets_setter :: "'a JaggedArray \<Rightarrow> int list \<Rightarrow> error + 'a JaggedArray" where
  "offsets_setter a v =
     (if \<exists>x \<in> set v. x < 0 then Inl ValueError
      else Inr (a\<lparr>starts := butlast v, stops := tl v, offsets_cache := Some v,
                  counts_cache := None, parents_cache := None, isvalid := False\<rparr>))"

definition counts_setter :: "'a JaggedArray \<Rightarrow> int list \<Rightarrow> error + 'a JaggedArray" where
  "counts_setter a v =
     (if \<exists>x \<in> set v. x < 0 then Inl ValueError
      else let offsets = counts2offsets v
           in Inr (a\<lparr>starts := butlast offsets, stops := tl offsets,
                      offsets_cache := Some offsets, counts_cache := Some v,
                      parents_cache := None, isvalid := False\<rparr>))"

text \<open>The parents setter compares \<^verbatim>\<open>len(value)\<close> with \<^verbatim>\<open>len(content)\<close>,
  a name bound neither in the method nor in the module: the comparison raises
  NameError before anything is assigned.\<close>

definition parents_setter :: "'a JaggedArray \<Rightarrow> int list \<Rightarrow> error + 'a JaggedArray" where
  "parents_setter a v = Inl NameError"

text \<open>\<^verbatim>\<open>__init__\<close> assigns through the three setters, in this order, on a
  new object; every attribute is written before it is read.\<close>

definition blank :: "'a JaggedArray" where
  "blank = \<lparr>starts = [], stops = [], content = [], offsets_cache = None,
            counts_cache = None, parents_cache = None, isvalid = False\<rparr>"

definition init :: "int list \<Rightarrow> int list \<Rightarrow> 'a list \<Rightarrow> error + 'a JaggedArray" where
  "init sts stp c =
     bind_err (starts_setter (blank :: 'a JaggedArray) sts) (\<lambda>a1.
     bind_err (stops_setter a1 stp) (\<lambda>a2. content_setter a2 c))"

subsection \<open>Length and iteration\<close>

definition len_jagged :: "'a JaggedArray \<Rightarrow> error + (nat \<times> 'a JaggedArray)" where
  "len_jagged a = bind_err (valid a) (\<lambda>a1. Inr (length (starts a1), a1))"

text \<open>\<^verbatim>\<open>for i, start in enumerate(self._starts): yield content[start:stops[i]]\<close>\<close>

fun iter_rows :: "'a list \<Rightarrow> int list \<Rightarrow> nat \<Rightarrow> int list \<Rightarrow> error + 'a list list" where
  "iter_rows c stp i [] = Inr []"
| "iter_rows c stp i (start # rest) =
     bind_err (np_item stp (int i)) (\<lambda>stop.
     bind_err (iter_rows c stp (Suc i) rest) (\<lambda>rs. Inr (py_slice c start stop # rs)))"

definition iter_jagged :: "'a JaggedArray \<Rightarrow> error + 'a list list" where
  "iter_jagged a = bind_err (valid a) (\<lambda>a1. iter_rows (content a1) (stops a1) 0 (starts a1))"

subsection \<open>Derived index arrays: counts, offsets, parents\<close>

text \<open>\<^verbatim>\<open>counts\<close>: the cache, or after validation \<^verbatim>\<open>stops - starts\<close>, which
  is then cached. A getter returns its value and the object as it leaves it.\<close>

definition counts ::
  "('a, 'z) JaggedArray_scheme \<Rightarrow> error + (int list \<times> ('a, 'z) JaggedArray_scheme)" where
  "counts a =
     (case counts_cache a of
        Some c \<Rightarrow> Inr (c, a)
      | None \<Rightarrow>
          bind_err (valid a) (\<lambda>a1.
          bind_err (np_binop (\<lambda>p q. p - q) (stops a1) (starts a1)) (\<lambda>c.
          Inr (c, a1\<lparr>counts_cache := Some c\<rparr>))))"

text \<open>
  Modelled from the spec: \<^verbatim>\<open>awkward.util.offsetsaliased\<close> is not among the
  sources. It asks whether starts and stops are two views of one offsets array,
  one item apart, which is a fact about memory and not about values: no pair of
  lists is aliased, so the test is False here and the comparison of values that
  follows it in every use (\<^verbatim>\<open>starts[1:]\<close> against \<^verbatim>\<open>stops[:-1]\<close>, the
  spec's condition for offsets to exist) decides. Where the source takes the
  shared base array as the offsets, that array is the starts followed by the last
  stop, which is what the other branch appends.
\<close>

definition offsetsaliased :: "int list \<Rightarrow> int list \<Rightarrow> bool" where
  "offsetsaliased sts stp = False"

definition offsets ::
  "('a, 'z) JaggedArray_scheme \<Rightarrow> error + (int list \<times> ('a, 'z) JaggedArray_scheme)" where
  "offsets a =
     (case offsets_cache a of
        Some v \<Rightarrow> Inr (v, a)
      | None \<Rightarrow>
          bind_err (valid a) (\<lambda>a1.
          if offsetsaliased (starts a1) (stops a1) \<or>
             array_equal (tl (starts a1)) (butlast (stops a1))
          then bind_err (np_item (stops a1) (- 1)) (\<lambda>e.
               let v = starts a1 @ [e] in Inr (v, a1\<lparr>offsets_cache := Some v\<rparr>))
          else Inl ValueError))"

text \<open>\<^verbatim>\<open>xs[a:b] = v\<close> with one value \<open>v\<close>: every position of the slice
  is overwritten.\<close>

definition fill_slice :: "'a list \<Rightarrow> int \<Rightarrow> int \<Rightarrow> 'a \<Rightarrow> 'a list" where
  "fill_slice xs a b v =
     (let n = int (length xs); s = slice_bound n a; e = slice_bound n b
      in map (\<lambda>j. if s \<le> j \<and> j < e then v else xs ! j) [0..<length xs])"

text \<open>The loop shared by the two conversions to parents: for each row
  \<open>i\<close> in index order, \<^verbatim>\<open>parents[start:stop] = i\<close>.\<close>

fun assign_rows :: "int list \<Rightarrow> int \<Rightarrow> (int \<times> int) list \<Rightarrow> int list" where
  "assign_rows ps i [] = ps"
| "assign_rows ps i ((a, b) # rows) = assign_rows (fill_slice ps a b i) (i + 1) rows"

text \<open>
  Modelled from the spec: \<^verbatim>\<open>awkward.util.startsstops2parents\<close> is not among
  the sources. The spec: initialize all parents to \<open>-1\<close>; for each row \<open>i\<close> in
  index order, set \<^verbatim>\<open>parents[starts[i]:stops[i]] = i\<close>, later rows overwriting
  earlier ones on overlap. The call passes starts and stops only, so the array is
  as long as the largest stop, the shortest array that holds every row.
\<close>

definition startsstops2parents :: "int list \<Rightarrow> int list \<Rightarrow> int list" where
  "startsstops2parents sts stp =
     assign_rows (replicate (nat (fold max stp 0)) (- 1)) 0 (zip sts stp)"

text \<open>
  Modelled from the spec: \<^verbatim>\<open>awkward.util.offsets2parents\<close> is not among the
  sources. The spec: for each row \<open>i\<close>, set
  \<^verbatim>\<open>parents[offsets[i]:offsets[i+1]] = i\<close>; the array ends with the last offset,
  and a position before the first offset belongs to no row (\<open>-1\<close>).
\<close>

definition offsets2parents :: "int list \<Rightarrow> int list" where
  "offsets2parents offs =
     assign_rows (replicate (nat (if offs = [] then 0 else last offs)) (- 1)) 0
       (zip (butlast offs) (tl offs))"

text \<open>\<^verbatim>\<open>parents\<close>: the cache, or after validation the parents of the offsets
  when they exist; only the ValueError of \<^verbatim>\<open>offsets\<close> is caught and leads to
  the general conversion (the object is then as validation left it).\<close>

definition parents ::
  "('a, 'z) JaggedArray_scheme \<Rightarrow> error + (int list \<times> ('a, 'z) JaggedArray_scheme)" where
  "parents a =
     (case parents_cache a of
        Some p \<Rightarrow> Inr (p, a)
      | None \<Rightarrow>
          bind_err (valid a) (\<lambda>a1.
          case offsets a1 of
            Inr (offs, a2) \<Rightarrow>
              let p = offsets2parents offs in Inr (p, a2\<lparr>parents_cache := Some p\<rparr>)
          | Inl ValueError \<Rightarrow>
              let p = startsstops2parents (starts a1) (stops a1)
              in Inr (p, a1\<lparr>parents_cache := Some p\<rparr>)
          | Inl e \<Rightarrow> Inl e))"

subsection \<open>Copies\<close>

text \<open>\<^verbatim>\<open>copy(starts, stops, content)\<close> copies the seven attributes and then
  assigns the given arguments through their setters: \<open>copy_index\<close> when no
  content is given, \<open>copy_jagged\<close> when one is.\<close>

definition copy_index ::
  "'a JaggedArray \<Rightarrow> int list option \<Rightarrow> int list option \<Rightarrow> error + 'a JaggedArray" where
  "copy_index a sts stp =
     bind_err (case sts of None \<Rightarrow> Inr a | Some v \<Rightarrow> starts_setter a v) (\<lambda>a1.
     case stp of None \<Rightarrow> Inr a1 | Some v \<Rightarrow> stops_setter a1 v)"

definition copy_jagged ::
  "'a JaggedArray \<Rightarrow> int list option \<Rightarrow> int list option \<Rightarrow> 'b list \<Rightarrow> error + 'b JaggedArray" where
  "copy_jagged a sts stp c = bind_err (copy_index a sts stp) (\<lambda>a2. content_setter a2 c)"

subsection \<open>Broadcasting a flat value over the rows\<close>

text \<open>\<^verbatim>\<open>xs[mask] = vs\<close>: the mask is as long as the array and the values are
  as many as its true positions (or one value, repeated); the values go to the
  true positions in order.\<close>

fun put_mask :: "'a list \<Rightarrow> bool list \<Rightarrow> 'a list \<Rightarrow> 'a list" where
  "put_mask (x # xs) (m # ms) vs =
     (if m then (case vs of [] \<Rightarrow> x # put_mask xs ms [] | v # vs' \<Rightarrow> v # put_mask xs ms vs')
      else x # put_mask xs ms vs)"
| "put_mask xs ms vs = xs"

definition np_put_mask :: "'a list \<Rightarrow> bool list \<Rightarrow> 'a list \<Rightarrow> error + 'a list" where
  "np_put_mask xs m vs =
     (let k = length (filter id m)
      in if length m \<noteq> length xs then Inl IndexError
         else if length vs = k then Inr (put_mask xs m vs)
         else if length vs = 1 then Inr (put_mask xs m (replicate k (hd vs)))
         else Inl ValueError)"

text \<open>The operand of a broadcast: a zero-dimensional value or a flat
  one-dimensional array.\<close>

datatype 'b operand = Scalar 'b | Flat "'b list"

text \<open>
  \<^verbatim>\<open>_broadcast(data)\<close>. \<^verbatim>\<open>numpy.empty\<close> gives an array of arbitrary
  items: \<open>fill\<close> stands for what a position that is never written holds. The
  method reads \<^verbatim>\<open>self.parents\<close>, selects \<^verbatim>\<open>data[parents[good]]\<close> and
  writes it to the good positions; it compares no lengths.
\<close>

definition broadcast :: "'b \<Rightarrow> 'a JaggedArray \<Rightarrow> 'b operand \<Rightarrow> error + 'b JaggedArray" where
  "broadcast fill a data =
     bind_err (parents a) (\<lambda>(ps, a1).
     let good = map (\<lambda>p. 0 \<le> p) ps;
         content0 = replicate (length ps) fill
     in bind_err
          (case data of
             Scalar d \<Rightarrow> np_put_mask content0 good [d]
           | Flat ds \<Rightarrow>
               bind_err (np_mask ps good) (\<lambda>gp.
               bind_err (np_take ds gp) (\<lambda>vs. np_put_mask content0 good vs)))
          (\<lambda>c. bind_err (content_setter a1 c) (\<lambda>out.
                Inr (out\<lparr>parents_cache := Some ps\<rparr>))))"

subsection \<open>Relayout\<close>

text \<open>\<^verbatim>\<open>xs[a:b] = vs\<close> with an array: the values are as many as the slice
  is long, or one value that is repeated; anything else is a ValueError.\<close>

definition np_set_slice :: "'a list \<Rightarrow> int \<Rightarrow> int \<Rightarrow> 'a list \<Rightarrow> error + 'a list" where
  "np_set_slice xs a b vs =
     (let n = int (length xs); s = slice_bound n a; e = max s (slice_bound n b)
      in if length vs = e - s then Inr (take s xs @ vs @ drop e xs)
         else if length vs = 1 then Inr (take s xs @ replicate (e - s) (hd vs) @ drop e xs)
         else Inl ValueError)"

text \<open>\<^verbatim>\<open>xs[idx] = vs\<close> with an integer array: one value per index (or one
  value, repeated), written in order, so that a repeated index keeps the last
  value.\<close>

fun put_items :: "'a list \<Rightarrow> (int \<times> 'a) list \<Rightarrow> error + 'a list" where
  "put_items xs [] = Inr xs"
| "put_items xs ((i, v) # ivs) =
     (let n = int (length xs); j = (if i < 0 then i + n else i)
      in if 0 \<le> j \<and> j < n then put_items (xs[nat j := v]) ivs else Inl IndexError)"

definition np_put :: "'a list \<Rightarrow> int list \<Rightarrow> 'a list \<Rightarrow> error + 'a list" where
  "np_put xs idx vs =
     (if length vs = length idx then put_items xs (zip idx vs)
      else if length vs = 1 then put_items xs (zip idx (replicate (length idx) (hd vs)))
      else Inl ValueError)"

text \<open>\<^verbatim>\<open>numpy.argsort(ks, kind="mergesort")\<close>: the positions in the order of
  their keys, equal keys in the order of the positions.\<close>

definition argsort :: "int list \<Rightarrow> int list" where
  "argsort ks = map int (sort_key (\<lambda>i. ks ! i) [0..<length ks])"

text \<open>\<^verbatim>\<open>(xs[:-1] < xs[1:]).all()\<close>\<close>

definition increasing :: "int list \<Rightarrow> bool" where
  "increasing xs = list_all (\<lambda>(p, q). p < q) (zip (butlast xs) (tl xs))"

text \<open>The first half of the general branch of \<^verbatim>\<open>_tojagged\<close>: the items of
  the rows, read from the content of \<^verbatim>\<open>self\<close>.\<close>

definition gather :: "'a JaggedArray \<Rightarrow> error + ('a list \<times> 'a JaggedArray)" where
  "gather a =
     (if offsetsaliased (starts a) (stops a) \<or> array_equal (tl (starts a)) (butlast (stops a))
      then bind_err (np_item (starts a) 0) (\<lambda>s0.
           bind_err (np_item (stops a) (- 1)) (\<lambda>e.
           Inr (py_slice (content a) s0 (e + 1), a)))
      else if increasing (starts a)
      then bind_err (parents a) (\<lambda>(ps, a1).
           bind_err (np_mask ps (map (\<lambda>p. 0 \<le> p) ps)) (\<lambda>idx.
           bind_err (np_take (content a1) idx) (\<lambda>c. Inr (c, a1))))
      else bind_err (parents a) (\<lambda>(ps, a1).
           bind_err (np_mask (argsort ps) (map (\<lambda>p. 0 \<le> p) ps)) (\<lambda>idx.
           bind_err (np_take (content a1) idx) (\<lambda>c. Inr (c, a1)))))"

text \<open>The second half: the items written into the content of \<^verbatim>\<open>out\<close>, whose
  starts and stops are the target.\<close>

definition scatter :: "'a JaggedArray \<Rightarrow> 'a list \<Rightarrow> error + 'a JaggedArray" where
  "scatter out c =
     (if offsetsaliased (starts out) (stops out) \<or>
         array_equal (tl (starts out)) (butlast (stops out))
      then bind_err (np_item (starts out) 0) (\<lambda>s0.
           bind_err (np_item (stops out) (- 1)) (\<lambda>e.
           bind_err (np_set_slice (content out) s0 (e + 1) c) (\<lambda>c'.
           Inr (out\<lparr>content := c'\<rparr>))))
      else if increasing (starts out)
      then bind_err (parents out) (\<lambda>(ps, out1).
           bind_err (np_mask ps (map (\<lambda>p. 0 \<le> p) ps)) (\<lambda>idx.
           bind_err (np_put (content out1) idx c) (\<lambda>c'.
           Inr (out1\<lparr>content := c'\<rparr>))))
      else bind_err (parents out) (\<lambda>(ps, out1).
           bind_err (np_mask (argsort ps) (map (\<lambda>p. 0 \<le> p) ps)) (\<lambda>idx.
           bind_err (np_put (content out1) idx c) (\<lambda>c'.
           Inr (out1\<lparr>content := c'\<rparr>)))))"

text \<open>\<^verbatim>\<open>numpy.zeros(stops.max(), dtype)\<close>: the maximum of no stops is a
  ValueError; \<open>z\<close> is the zero of the content's type.\<close>

definition zeros_upto_max :: "'a \<Rightarrow> int list \<Rightarrow> error + 'a list" where
  "zeros_upto_max z stp =
     (if stp = [] then Inl ValueError
      else if fold max (tl stp) (hd stp) < 0 then Inl ValueError
      else Inr (replicate (nat (fold max (tl stp) (hd stp))) z))"

text \<open>
  \<^verbatim>\<open>_tojagged(starts, stops, copy)\<close>. An absent argument is \<open>None\<close>. The
  test \<^verbatim>\<open>starts is self._starts and stops is self._stops\<close> is about the
  identity of objects: \<open>same\<close> says whether the arrays passed are the object's
  own (when both are absent and \<open>copy\<close> is off they are).
\<close>

definition target ::
  "'a JaggedArray \<Rightarrow> int list option \<Rightarrow> int list option \<Rightarrow>
   error + ((int list \<times> int list) \<times> 'a JaggedArray)" where
  "target a sts stp =
     (case (sts, stp) of
        (None, None) \<Rightarrow> Inr ((starts a, stops a), a)
      | (Some s, None) \<Rightarrow>
          bind_err (valid a) (\<lambda>a1.
          if length (starts a1) \<noteq> length s then Inl IndexError
          else bind_err (counts a1) (\<lambda>(c, a2).
               bind_err (np_binop (\<lambda>p q. p + q) s c) (\<lambda>t.
               bind_err (np_binop (\<lambda>p q. p > q) (butlast t) (tl s)) (\<lambda>over.
               if list_ex id over then Inl IndexError else Inr ((s, t), a2)))))
      | (None, Some t) \<Rightarrow>
          bind_err (valid a) (\<lambda>a1.
          if length (starts a1) \<noteq> length t then Inl IndexError
          else bind_err (counts a1) (\<lambda>(c, a2).
               bind_err (np_binop (\<lambda>p q. p - q) t c) (\<lambda>s.
               bind_err (np_binop (\<lambda>p q. p > q) (butlast t) (tl s)) (\<lambda>over.
               if list_ex id over then Inl IndexError else Inr ((s, t), a2)))))
      | (Some s, Some t) \<Rightarrow>
          bind_err (np_binop (\<lambda>p q. p - q) t s) (\<lambda>d.
          bind_err (counts a) (\<lambda>(c, a2).
          if \<not> array_equal d c then Inl IndexError else Inr ((s, t), a2))))"

definition tojagged ::
  "'a \<Rightarrow> bool \<Rightarrow> 'a JaggedArray \<Rightarrow> int list option \<Rightarrow> int list option \<Rightarrow> bool \<Rightarrow>
   error + 'a JaggedArray" where
  "tojagged z same a sts stp copy =
     bind_err (target a sts stp) (\<lambda>((s, t), a2).
     bind_err (validstartsstops s t) (\<lambda>_.
     if \<not> copy \<and> ((sts = None \<and> stp = None) \<or> same) then Inr a2
     else if array_equal s (starts a2) \<and> array_equal t (stops a2)
     then copy_jagged a2 (Some s) (Some t) (content a2)
     else bind_err (zeros_upto_max z t) (\<lambda>zs.
          bind_err (copy_jagged a2 (Some s) (Some t) zs) (\<lambda>out.
          bind_err (gather a2) (\<lambda>(c, a3). scatter out c)))))"

subsection \<open>Reductions over the rows\<close>

text \<open>
  What the reductions take from NumPy for the content's element type: whether
  the type is a floating-point or an integer type, its 0 and 1, its arithmetic
  (\<open>np_add\<close>, \<open>np_subtract\<close>, \<open>np_multiply\<close>, in the type itself), the
  accumulation of \<^verbatim>\<open>add.reduceat\<close> and \<^verbatim>\<open>multiply.reduceat\<close> (which
  NumPy carries out in the platform integer for a smaller integer type), minimum
  and maximum, the two infinities and the bounds \<^verbatim>\<open>numpy.iinfo\<close> gives.
\<close>

record 'a dtype =
  is_floating :: bool
  is_integer :: bool
  np_zero :: 'a
  np_one :: 'a
  np_add :: "'a \<Rightarrow> 'a \<Rightarrow> 'a"
  np_subtract :: "'a \<Rightarrow> 'a \<Rightarrow> 'a"
  np_multiply :: "'a \<Rightarrow> 'a \<Rightarrow> 'a"
  add_reduce :: "'a \<Rightarrow> 'a \<Rightarrow> 'a"
  multiply_reduce :: "'a \<Rightarrow> 'a \<Rightarrow> 'a"
  np_minimum :: "'a \<Rightarrow> 'a \<Rightarrow> 'a"
  np_maximum :: "'a \<Rightarrow> 'a \<Rightarrow> 'a"
  np_inf :: 'a
  np_neginf :: 'a
  iinfo_max :: 'a
  iinfo_min :: 'a

text \<open>
  \<^verbatim>\<open>ufunc.reduceat(xs, idx)\<close>, as NumPy documents it: item \<open>k\<close> of the
  result reduces \<^verbatim>\<open>xs[idx[k]:idx[k+1]]\<close> (up to the end of \<open>xs\<close> for the last
  index); where \<^verbatim>\<open>idx[k] >= idx[k+1]\<close> it is \<^verbatim>\<open>xs[idx[k]]\<close>; an index
  below 0 or not below \<^verbatim>\<open>len(xs)\<close> is an IndexError.
\<close>

definition reduceat :: "('a \<Rightarrow> 'a \<Rightarrow> 'a) \<Rightarrow> 'a list \<Rightarrow> int list \<Rightarrow> error + 'a list" where
  "reduceat f xs idx =
     (if \<exists>i \<in> set idx. i < 0 \<or> int (length xs) \<le> i then Inl IndexError
      else Inr (map (\<lambda>k.
             let lo = nat (idx ! k);
                 hi = (if Suc k < length idx then nat (idx ! Suc k) else length xs)
             in if hi \<le> lo then xs ! lo
                else foldl f (xs ! lo) (take (hi - Suc lo) (drop (Suc lo) xs)))
           [0..<length idx]))"

definition canuseoffset :: "'a JaggedArray \<Rightarrow> error + (bool \<times> 'a JaggedArray)" where
  "canuseoffset a =
     bind_err (valid a) (\<lambda>a1.
     Inr (offsetsaliased (starts a1) (stops a1) \<or>
          array_equal (tl (starts a1)) (butlast (stops a1)), a1))"

text \<open>The path of \<^verbatim>\<open>sum\<close>, \<^verbatim>\<open>prod\<close> and \<^verbatim>\<open>_minmax_offset\<close> when
  \<^verbatim>\<open>_canuseoffset()\<close> holds: one \<^verbatim>\<open>reduceat\<close> over
  \<^verbatim>\<open>content[starts[0]:stops[-1]]\<close> at \<^verbatim>\<open>offsets[:-1]\<close>, then the identity
  written where \<^verbatim>\<open>offsets[1:] == offsets[:-1]\<close>.\<close>

definition reduce_offset ::
  "('a \<Rightarrow> 'a \<Rightarrow> 'a) \<Rightarrow> 'a \<Rightarrow> 'a JaggedArray \<Rightarrow> error + 'a list" where
  "reduce_offset f ident a =
     bind_err (np_item (starts a) 0) (\<lambda>s0.
     bind_err (np_item (stops a) (- 1)) (\<lambda>e.
     bind_err (offsets a) (\<lambda>(offs, a1).
     bind_err (reduceat f (py_slice (content a1) s0 e) (butlast offs)) (\<lambda>out.
     np_put_mask out (map2 (\<lambda>p q. p = q) (tl offs) (butlast offs)) [ident]))))"

fun scan :: "('a \<Rightarrow> 'a \<Rightarrow> 'a) \<Rightarrow> 'a \<Rightarrow> 'a list \<Rightarrow> 'a list" where
  "scan f acc [] = []"
| "scan f acc (x # xs) = f acc x # scan f (f acc x) xs"

definition sum_jagged :: "'a dtype \<Rightarrow> 'a JaggedArray \<Rightarrow> error + 'a list" where
  "sum_jagged dt a =
     bind_err (canuseoffset a) (\<lambda>(fast, a1).
     if fast then reduce_offset (add_reduce dt) (np_zero dt) a1
     else let contentsum = np_zero dt # scan (np_add dt) (np_zero dt) (content a1)
          in bind_err (np_binop (\<lambda>p q. p \<noteq> q) (starts a1) (stops a1)) (\<lambda>nonempty.
             bind_err (valid a1) (\<lambda>a2.
             bind_err (np_mask (stops a2) nonempty) (\<lambda>hi.
             bind_err (np_take contentsum hi) (\<lambda>chi.
             bind_err (np_mask (starts a2) nonempty) (\<lambda>lo.
             bind_err (np_take contentsum lo) (\<lambda>clo.
             bind_err (np_binop (np_subtract dt) chi clo) (\<lambda>d.
             np_put_mask (replicate (length (starts a2)) (np_zero dt)) nonempty d))))))))"

text \<open>The loop of the general paths of \<^verbatim>\<open>prod\<close> and \<^verbatim>\<open>_minmax_general\<close>:
  \<open>out\<close> starts as the identity everywhere, and each row with
  \<^verbatim>\<open>start != stop\<close> has its item computed by \<open>g\<close> from the old item and the
  row's slice of content.\<close>

fun reduce_rows ::
  "('a \<Rightarrow> 'a list \<Rightarrow> error + 'a) \<Rightarrow> 'a \<Rightarrow> 'a list \<Rightarrow> int list \<Rightarrow> nat \<Rightarrow> int list \<Rightarrow>
   error + 'a list" where
  "reduce_rows g ident c stp i [] = Inr []"
| "reduce_rows g ident c stp i (start # rest) =
     bind_err (np_item stp (int i)) (\<lambda>stop.
     bind_err (if start \<noteq> stop then g ident (py_slice c start stop) else Inr ident) (\<lambda>x.
     bind_err (reduce_rows g ident c stp (Suc i) rest) (\<lambda>xs. Inr (x # xs))))"

definition prod_jagged :: "'a dtype \<Rightarrow> 'a JaggedArray \<Rightarrow> error + 'a list" where
  "prod_jagged dt a =
     bind_err (canuseoffset a) (\<lambda>(fast, a1).
     if fast then reduce_offset (multiply_reduce dt) (np_one dt) a1
     else reduce_rows (\<lambda>x row. Inr (np_multiply dt x (foldl (multiply_reduce dt) (np_one dt) row)))
            (np_one dt) (content a1) (stops a1) 0 (starts a1))"

text \<open>\<^verbatim>\<open>numpy.amin\<close> and \<^verbatim>\<open>numpy.amax\<close> of a slice: no items is a
  ValueError.\<close>

definition optimum :: "('a \<Rightarrow> 'a \<Rightarrow> 'a) \<Rightarrow> 'a list \<Rightarrow> error + 'a" where
  "optimum f row = (case row of [] \<Rightarrow> Inl ValueError | x # xs \<Rightarrow> Inr (foldl f x xs))"

definition minmax_offset :: "'a dtype \<Rightarrow> 'a JaggedArray \<Rightarrow> bool \<Rightarrow> error + 'a list" where
  "minmax_offset dt a ismin =
     (if ismin
      then (if is_floating dt then reduce_offset (np_minimum dt) (np_inf dt) a
            else if is_integer dt then reduce_offset (np_minimum dt) (iinfo_max dt) a
            else bind_err (reduce_offset (np_minimum dt) (iinfo_max dt) a) (\<lambda>_. Inl ValueError))
      else (if is_floating dt then reduce_offset (np_maximum dt) (np_neginf dt) a
            else if is_integer dt then reduce_offset (np_maximum dt) (iinfo_min dt) a
            else bind_err (reduce_offset (np_maximum dt) (iinfo_min dt) a) (\<lambda>_. Inl ValueError)))"

text \<open>\<^verbatim>\<open>_minmax_general(isarg=False, ismin)\<close>, the only way \<^verbatim>\<open>min\<close> and
  \<^verbatim>\<open>max\<close> call it.\<close>

definition minmax_general :: "'a dtype \<Rightarrow> 'a JaggedArray \<Rightarrow> bool \<Rightarrow> error + 'a list" where
  "minmax_general dt a ismin =
     (if is_floating dt
      then reduce_rows (\<lambda>_ row. optimum (if ismin then np_minimum dt else np_maximum dt) row)
             (if ismin then np_inf dt else np_neginf dt) (content a) (stops a) 0 (starts a)
      else if is_integer dt
      then reduce_rows (\<lambda>_ row. optimum (if ismin then np_minimum dt else np_maximum dt) row)
             (if ismin then iinfo_max dt else iinfo_min dt) (content a) (stops a) 0 (starts a)
      else Inl TypeError)"

definition min_jagged :: "'a dtype \<Rightarrow> 'a JaggedArray \<Rightarrow> error + 'a list" where
  "min_jagged dt a =
     bind_err (canuseoffset a) (\<lambda>(fast, a1).
     if fast then minmax_offset dt a1 True else minmax_general dt a1 True)"

definition max_jagged :: "'a dtype \<Rightarrow> 'a JaggedArray \<Rightarrow> error + 'a list" where
  "max_jagged dt a =
     bind_err (canuseoffset a) (\<lambda>(fast, a1).
     if fast then minmax_offset dt a1 False else minmax_general dt a1 False)"

text \<open>Two instances: 64-bit signed integers, whose arithmetic wraps, and the
  unsigned bytes that a boolean array is viewed as. Neither has infinities: the
  two fields are read for floating-point types only.\<close>

definition wrap64 :: "int \<Rightarrow> int" where
  "wrap64 x = (x + 2 ^ 63) mod 2 ^ 64 - 2 ^ 63"

definition int64 :: "int dtype" where
  "int64 = \<lparr>is_floating = False, is_integer = True, np_zero = 0, np_one = 1,
     np_add = (\<lambda>x y. wrap64 (x + y)), np_subtract = (\<lambda>x y. wrap64 (x - y)),
     np_multiply = (\<lambda>x y. wrap64 (x * y)),
     add_reduce = (\<lambda>x y. wrap64 (x + y)), multiply_reduce = (\<lambda>x y. wrap64 (x * y)),
     np_minimum = min, np_maximum = max, np_inf = 0, np_neginf = 0,
     iinfo_max = 2 ^ 63 - 1, iinfo_min = - (2 ^ 63)\<rparr>"

definition uint8 :: "int dtype" where
  "uint8 = \<lparr>is_floating = False, is_integer = True, np_zero = 0, np_one = 1,
     np_add = (\<lambda>x y. (x + y) mod 256), np_subtract = (\<lambda>x y. (x - y) mod 256),
     np_multiply = (\<lambda>x y. (x * y) mod 256),
     add_reduce = (\<lambda>x y. (x + y) mod 2 ^ 64), multiply_reduce = (\<lambda>x y. (x * y) mod 2 ^ 64),
     np_minimum = min, np_maximum = max, np_inf = 0, np_neginf = 0,
     iinfo_max = 255, iinfo_min = 0\<rparr>"

subsection \<open>Construction from offsets and from rows\<close>

definition fromoffsets :: "int list \<Rightarrow> 'a list \<Rightarrow> error + 'a JaggedArray" where
  "fromoffsets offs c =
     (if \<exists>x \<in> set offs. x < 0 then Inl ValueError
      else bind_err (init (butlast offs) (tl offs) c) (\<lambda>out.
           Inr (out\<lparr>offsets_cache := Some offs\<rparr>)))"

text \<open>\<^verbatim>\<open>fromiter\<close>: the running offsets and the flattened rows.\<close>

fun fromiter_loop :: "int list \<Rightarrow> 'a list \<Rightarrow> 'a list list \<Rightarrow> int list \<times> 'a list" where
  "fromiter_loop offs c [] = (offs, c)"
| "fromiter_loop offs c (x # rest) =
     fromiter_loop (offs @ [last offs + int (length x)]) (c @ x) rest"

definition fromiter :: "'a list list \<Rightarrow> error + 'a JaggedArray" where
  "fromiter rows = (case fromiter_loop [0] [] rows of (offs, c) \<Rightarrow> fromoffsets offs c)"

subsection \<open>Indexing by a jagged array\<close>

text \<open>
  Modelled from the spec: \<^verbatim>\<open>awkward.util.isstringslice\<close> is not among the
  sources. The spec: a key that is a string or a sequence of strings projects
  named columns from content. A jagged array is a sequence of its rows, and no
  row is a string: as a key it is a sequence of strings exactly when it has no
  rows.
\<close>

definition isstringslice :: "'b JaggedArray \<Rightarrow> bool" where
  "isstringslice wh \<longleftrightarrow> starts wh = []"

text \<open>
  \<^verbatim>\<open>__getitem__\<close> validates \<^verbatim>\<open>self\<close> and then asks whether the key is a
  string slice (reading the rows of a jagged key validates the key); if it is,
  \<^verbatim>\<open>self.copy(content=self._content[where])\<close> is returned at once. What
  \<^verbatim>\<open>content[where]\<close> selects for a jagged key without rows is decided by how
  NumPy converts the key, through the base class of the arrays, which is not
  among the sources: \<open>named\<close> stands for it.
\<close>

text \<open>
  \<^verbatim>\<open>__getitem__\<close> with a jagged array of integers as the only component of
  the key. The index is laid out again from offset 0, the counts and the starts
  of \<^verbatim>\<open>self\<close> are broadcast over it, negative items get their row's count
  added, and an item outside its row is an IndexError. A boolean mask applied to
  an array of another length is NumPy's IndexError, and an elementwise operator
  on two lengths that do not broadcast its ValueError.
\<close>

definition getitem_int ::
  "int \<Rightarrow> ('a list \<Rightarrow> error + 'a list) \<Rightarrow> 'a JaggedArray \<Rightarrow> int JaggedArray \<Rightarrow>
   error + 'a JaggedArray" where
  "getitem_int fill named a hd0 =
     bind_err (valid a) (\<lambda>a1.
     bind_err (valid hd0) (\<lambda>hd1.
     if isstringslice hd1
     then bind_err (named (content a1)) (\<lambda>c. copy_jagged a1 None None c)
     else if length (starts hd1) \<noteq> length (starts a1) then Inl ValueError
     else bind_err (counts hd1) (\<lambda>(hc, hd2).
          let headoffsets = counts2offsets hc
          in bind_err (tojagged 0 False hd2 (Some (butlast headoffsets)) (Some (tl headoffsets)) False)
               (\<lambda>head.
          bind_err (counts a1) (\<lambda>(c, a2).
          bind_err (broadcast fill head (Flat c)) (\<lambda>bc.
          let cnts = content bc; indexes = content head; negatives = map (\<lambda>i. i < 0) indexes
          in bind_err (np_mask cnts negatives) (\<lambda>cneg.
             bind_err (np_mask indexes negatives) (\<lambda>ineg.
             bind_err (np_put_mask indexes negatives (map2 (\<lambda>p q. p + q) ineg cneg)) (\<lambda>indexes1.
             bind_err (np_binop (\<lambda>i k. 0 \<le> i \<and> i < k) indexes1 cnts) (\<lambda>inside.
             if \<not> list_all id inside then Inl IndexError
             else bind_err (broadcast fill head (Flat (starts a2))) (\<lambda>bs.
                  if length (content bs) \<noteq> length indexes1 \<and> length (content bs) \<noteq> 1
                  then Inl ValueError
                  else bind_err (np_binop (\<lambda>p q. p + q) indexes1 (content bs)) (\<lambda>indexes2.
                       bind_err (np_take (content a2) indexes2) (\<lambda>picked.
                       copy_jagged a2 (Some (starts head)) (Some (stops head)) picked)))))))))))))"

text \<open>
  \<^verbatim>\<open>__getitem__\<close> with a jagged array of booleans. \<^verbatim>\<open>self\<close> is used as it
  is when its offsets exist and is laid out again from offset 0 when they raise a
  ValueError; the mask is laid out as \<^verbatim>\<open>thyself\<close>, viewed as bytes and summed
  by rows, and the sums are the counts of the result. \<open>same\<close> says whether the
  mask shares its starts and stops with \<^verbatim>\<open>thyself\<close>. The copy that is
  returned has its starts, stops and content assigned, which resets the flag and
  every cache: what the getters cached in \<^verbatim>\<open>self\<close> on the way does not show in
  it.
\<close>

definition getitem_bool ::
  "'a \<Rightarrow> bool \<Rightarrow> ('a list \<Rightarrow> error + 'a list) \<Rightarrow> 'a JaggedArray \<Rightarrow> bool JaggedArray \<Rightarrow>
   error + 'a JaggedArray" where
  "getitem_bool z same named a hd0 =
     bind_err (valid a) (\<lambda>a1.
     bind_err (valid hd0) (\<lambda>hd1.
     if isstringslice hd1
     then bind_err (named (content a1)) (\<lambda>c. copy_jagged a1 None None c)
     else
     bind_err
       (case offsets a1 of
          Inr (offs, a2) \<Rightarrow> Inr a2
        | Inl ValueError \<Rightarrow>
            bind_err (counts a1) (\<lambda>(c, a2).
            let offs = counts2offsets c
            in tojagged z False a2 (Some (butlast offs)) (Some (tl offs)) False)
        | Inl e \<Rightarrow> Inl e)
       (\<lambda>thyself.
     bind_err (tojagged False same hd1 (Some (starts thyself)) (Some (stops thyself)) False)
       (\<lambda>head.
     bind_err (copy_jagged head None None (map (\<lambda>b. if b then 1 else 0 :: int) (content head)))
       (\<lambda>inthead.
     bind_err (sum_jagged uint8 inthead) (\<lambda>intheadsum.
     let offs = counts2offsets intheadsum
     in bind_err (np_mask (content thyself) (content head)) (\<lambda>kept.
        copy_jagged a1 (Some (butlast offs)) (Some (tl offs)) kept)))))))"

subsection \<open>Positions of the minimum and the maximum\<close>

text \<open>
  \<^verbatim>\<open>numpy.ceil\<close> of an integer is a float64: an integer of more than 53
  bits is rounded to the nearest integer with 53 significant bits, and to the
  one with an even last bit when two are equally near. A sum of two float64 is
  rounded in the same way.
\<close>

function bit_length :: "int \<Rightarrow> nat" where
  "bit_length n = (if n \<le> 0 then 0 else Suc (bit_length (n div 2)))"
  by auto

termination
  by (relation "measure nat") auto

declare bit_length.simps [simp del]

definition float64 :: "int \<Rightarrow> int" where
  "float64 x =
     (let m = \<bar>x\<bar>; q = 2 ^ (bit_length m - 53); lo = (m div q) * q; r = m - lo;
          up = (q < 2 * r \<or> (2 * r = q \<and> odd (m div q)))
      in sgn x * (if up then lo + q else lo))"

text \<open>
  The shift of \<^verbatim>\<open>_argminmax\<close>, \<^verbatim>\<open>numpy.ceil(content.max()) + 1\<close>: a sum
  of float64, stored into an array of \<^verbatim>\<open>INDEXTYPE\<close>. The one value outside
  64 bits that can arise is \<open>2 ^ 63\<close>, which an x86-64 processor stores as
  \<open>- (2 ^ 63)\<close>, as \<open>wrap64\<close> does.
\<close>

definition ceil_plus_one :: "int \<Rightarrow> int" where
  "ceil_plus_one m = wrap64 (float64 (float64 m + 1))"

text \<open>
  \<^verbatim>\<open>(content + shift).argsort()\<close> sorts with NumPy's default kind, which
  promises no order among equal keys: \<open>rank\<close> stands for the order in which it
  leaves them. The positions are sorted by key, and those of equal keys by
  rank.
\<close>

definition argsort_default :: "(nat \<Rightarrow> int) \<Rightarrow> int list \<Rightarrow> int list" where
  "argsort_default rank ks =
     map int (sort_key (\<lambda>i. ks ! i) (sort_key rank [0..<length ks]))"

text \<open>
  \<^verbatim>\<open>_argminmax(ismin)\<close> on content of 64-bit integers, whose sums and
  differences wrap. The shift is written at each start and accumulated; one
  sort of \<^verbatim>\<open>content + shift\<close> gives \<^verbatim>\<open>sortedindex\<close>, read at the starts
  (at the stops minus one for the maximum).
\<close>

definition argminmax ::
  "(nat \<Rightarrow> int) \<Rightarrow> int JaggedArray \<Rightarrow> bool \<Rightarrow> error + int JaggedArray" where
  "argminmax rank a ismin =
     bind_err (valid a) (\<lambda>a1.
     let flatstarts = starts a1; flatstops = stops a1; c = content a1
     in if c = [] then Inl ValueError
        else bind_err (np_put (replicate (length c) 0) flatstarts
                         [ceil_plus_one (fold max (tl c) (hd c))])
               (\<lambda>shift0.
             let shift = scan (\<lambda>p q. wrap64 (p + q)) 0 shift0;
                 sortedindex = argsort_default rank (map2 (\<lambda>p q. wrap64 (p + q)) c shift)
             in bind_err
                  (if ismin then np_take sortedindex flatstarts
                   else np_take sortedindex (map (\<lambda>t. wrap64 (t - 1)) flatstops))
                  (\<lambda>picked.
                bind_err (np_binop (\<lambda>p q. wrap64 (p - q)) picked flatstarts) (\<lambda>flatout.
                let newstarts = map int [0..<length flatstarts]
                in bind_err (np_binop (\<lambda>p q. p \<noteq> q) flatstarts flatstops) (\<lambda>nonempty.
                   bind_err (np_mask newstarts nonempty) (\<lambda>ns.
                   bind_err (np_put_mask newstarts nonempty (map (\<lambda>p. wrap64 (p + 1)) ns))
                     (\<lambda>newstops.
                   copy_jagged a1 (Some newstarts) (Some newstops) flatout)))))))"

definition argmin :: "(nat \<Rightarrow> int) \<Rightarrow> int JaggedArray \<Rightarrow> error + int JaggedArray" where
  "argmin rank a = argminmax rank a True"

definition argmax :: "(nat \<Rightarrow> int) \<Rightarrow> int JaggedArray \<Rightarrow> error + int JaggedArray" where
  "argmax rank a = argminmax rank a False"

subsection \<open>Pairs of positions, row by row\<close>

text \<open>
  \<^verbatim>\<open>argcross\<close>. The table of the two columns \<^verbatim>\<open>left\<close> and \<^verbatim>\<open>right\<close> is
  the list of their pairs. \<^verbatim>\<open>numpy.empty_like\<close> gives arbitrary items, for
  which \<open>fill\<close> stands. The arrays are of \<^verbatim>\<open>INDEXTYPE\<close>, whose arithmetic
  wraps at 64 bits: the product of the counts, the offsets (the running sum,
  each prefix sum taken modulo \<open>2 ^ 64\<close>) and the sums, differences, products and
  quotients of the positions. NumPy's integer division rounds down and gives 0
  when the divisor is 0, as \<open>div\<close> on \<open>int\<close> does.
\<close>

definition argcross ::
  "int \<Rightarrow> 'a JaggedArray \<Rightarrow> 'b JaggedArray \<Rightarrow> error + (int \<times> int) JaggedArray" where
  "argcross fill a b =
     bind_err (valid a) (\<lambda>a1.
     bind_err (valid b) (\<lambda>b1.
     if length (starts a1) \<noteq> length (starts b1) then Inl ValueError
     else bind_err (counts a1) (\<lambda>(ca, a2).
          bind_err (counts b1) (\<lambda>(cb, b2).
          bind_err (np_binop (\<lambda>p q. wrap64 (p * q)) ca cb) (\<lambda>cc.
          let offs = map wrap64 (counts2offsets cc);
              indexes = map int [0..<nat (last offs)];
              ps = offsets2parents offs
          in bind_err (np_take ps indexes) (\<lambda>par.
             bind_err (np_take (starts a2) par) (\<lambda>sa.
             bind_err (np_take (starts b2) par) (\<lambda>sb.
             bind_err (np_take offs par) (\<lambda>off.
             bind_err (np_take cb par) (\<lambda>cbp.
             bind_err (np_binop (\<lambda>p q. wrap64 (p - q)) indexes off) (\<lambda>local.
             bind_err (np_binop (\<lambda>p q. wrap64 (p div q)) local cbp) (\<lambda>quot.
             bind_err (np_binop (\<lambda>p q. wrap64 (p + q)) sa quot) (\<lambda>lv.
             bind_err (np_put (replicate (length indexes) fill) indexes lv) (\<lambda>left.
             bind_err (np_binop (\<lambda>p q. wrap64 (p + q)) sb local) (\<lambda>r1.
             bind_err (np_binop (\<lambda>p q. wrap64 (p * q)) cbp quot) (\<lambda>r2.
             bind_err (np_binop (\<lambda>p q. wrap64 (p - q)) r1 r2) (\<lambda>rv.
             bind_err (np_put (replicate (length indexes) fill) indexes rv) (\<lambda>right.
             bind_err (fromoffsets offs (zip left right)) (\<lambda>out.
             Inr (out\<lparr>parents_cache := Some ps\<rparr>))))))))))))))))))))"

subsection \<open>Broadcasting inside the elementwise dispatch\<close>

text \<open>
  The loop of \<^verbatim>\<open>__array_ufunc__\<close> over its NumPy operands, for one operand:
  \<^verbatim>\<open>jaggedarray\<close> is the first jagged operand, whose starts, stops and parents
  are used, and \<^verbatim>\<open>self\<close> the object that is copied. Unlike
  \<^verbatim>\<open>_broadcast\<close>, it compares the shape of the operand with the shape of the
  starts and raises a ValueError when they differ.
\<close>

definition ufunc_operand ::
  "'b \<Rightarrow> 'a JaggedArray \<Rightarrow> 'c JaggedArray \<Rightarrow> 'b operand \<Rightarrow> error + 'b JaggedArray" where
  "ufunc_operand fill self jaggedarray data =
     bind_err (parents jaggedarray) (\<lambda>(ps, j1).
     let good = map (\<lambda>p. 0 \<le> p) ps;
         content0 = replicate (length ps) fill
     in bind_err
          (case data of
             Scalar d \<Rightarrow> np_put_mask content0 good [d]
           | Flat ds \<Rightarrow>
               if length (starts j1) \<noteq> length ds then Inl ValueError
               else bind_err (np_mask ps good) (\<lambda>gp.
                    bind_err (np_take ds gp) (\<lambda>vs. np_put_mask content0 good vs)))
          (\<lambda>c. copy_jagged self (Some (starts j1)) (Some (stops j1)) c))"

section \<open>The byte-addressed variant\<close>

text \<open>A \<^verbatim>\<open>ByteJaggedArray\<close> is a jagged array with one more attribute, the
  element type \<^verbatim>\<open>_subdtype\<close>, of which the methods below read the item
  size.\<close>

record 'a ByteJaggedArray = "'a JaggedArray" +
  itemsize :: int

text \<open>\<^verbatim>\<open>x >> k\<close> on an integer array rounds down, as \<open>div\<close> by \<open>2 ^ k\<close>
  does.\<close>

definition divitemsize :: "'a ByteJaggedArray \<Rightarrow> int list \<Rightarrow> int list" where
  "divitemsize b x =
     (if itemsize b = 1 then x
      else if itemsize b = 2 then map (\<lambda>v. v div 2 ^ 1) x
      else if itemsize b = 4 then map (\<lambda>v. v div 2 ^ 2) x
      else if itemsize b = 8 then map (\<lambda>v. v div 2 ^ 3) x
      else map (\<lambda>v. v div itemsize b) x)"

text \<open>
  \<^verbatim>\<open>ByteJaggedArray._valid\<close>: the inherited validation, which sets the flag,
  then \<^verbatim>\<open>self.counts\<close> (whose own call of \<^verbatim>\<open>_valid\<close> finds the flag set),
  then the test on the counts, written as in the source:
  \<^verbatim>\<open>if not (self._divitemsize(self.counts) * itemsize != self.counts).all()\<close>.
\<close>

definition valid_byte :: "'a ByteJaggedArray \<Rightarrow> error + 'a ByteJaggedArray" where
  "valid_byte b =
     (if \<not> isvalid b
      then bind_err (valid b) (\<lambda>b1.
           bind_err (counts b1) (\<lambda>(c, b2).
           if \<not> list_all id (map2 (\<lambda>d k. d * itemsize b2 \<noteq> k) (divitemsize b2 c) c)
           then Inl ValueError
           else Inr (b2\<lparr>isvalid := True\<rparr>)))
      else Inr b)"

section \<open>Views the claims quantify over\<close>

text \<open>
  What the constructor and the setters establish and the getters keep, for a
  view in the spec's data model: starts and stops of one length, none of them
  negative (every setter refuses a negative item), and a counts cache that, when
  present, holds \<^verbatim>\<open>stops - starts\<close>.
\<close>

definition rows_ok :: "'a JaggedArray \<Rightarrow> bool" where
  "rows_ok a \<longleftrightarrow>
     length (starts a) = length (stops a) \<and>
     list_all (\<lambda>x. 0 \<le> x) (starts a) \<and> list_all (\<lambda>x. 0 \<le> x) (stops a) \<and>
     (case counts_cache a of
        None \<Rightarrow> True
      | Some c \<Rightarrow> c = map2 (\<lambda>q p. q - p) (stops a) (starts a))"

text \<open>The rows of a view, as the spec's data model gives them: row \<open>i\<close> is
  \<^verbatim>\<open>content[starts[i]:stops[i]]\<close>.\<close>

definition rows_of :: "'a JaggedArray \<Rightarrow> 'a list list" where
  "rows_of a =
     map (\<lambda>i. py_slice (content a) (starts a ! i) (stops a ! i)) [0..<length (starts a)]"

section \<open>Validation, length and iteration with fewer starts than stops\<close>

lemma iter_rows_in_range:
  "i + length sts \<le> length stp \<Longrightarrow>
   iter_rows c stp i sts =
     Inr (map (\<lambda>k. py_slice c (sts ! k) (stp ! (i + k))) [0..<length sts])"
proof (induction sts arbitrary: i)
  case Nil
  then show ?case by simp
next
  case (Cons s sts)
  have item: "np_item stp (int i) = Inr (stp ! i)"
    using Cons.prems by (simp add: np_item_def)
  have rest: "iter_rows c stp (Suc i) sts =
      Inr (map (\<lambda>k. py_slice c (sts ! k) (stp ! (Suc i + k))) [0..<length sts])"
    using Cons.prems by (intro Cons.IH) simp
  have shift: "map (\<lambda>k. py_slice c ((s # sts) ! k) (stp ! (i + k))) [0..<length (s # sts)] =
      py_slice c s (stp ! i) # map (\<lambda>k. py_slice c (sts ! k) (stp ! (Suc i + k))) [0..<length sts]"
    by (simp add: upt_conv_Cons map_Suc_upt [symmetric] del: upt_Suc)
  show ?case
    by (simp only: iter_rows.simps item rest bind_err.simps shift)
qed

text \<open>
  C10. Validation accepts starts with strictly fewer elements than stops and
  rejects (with a value error) exactly the case of more starts than stops; for
  such a view the length is the number of starts and iteration yields that many
  rows, row \<open>i\<close> being \<^verbatim>\<open>content[starts[i]:stops[i]]\<close>: the extra stops
  are never read.
\<close>

theorem fewer_starts_than_stops:
  "(validstartsstops sts stp = Inl ValueError \<longleftrightarrow> length sts > length stp) \<and>
   (length (starts a) < length (stops a) \<longrightarrow>
      (\<exists>a1. valid a = Inr a1 \<and> isvalid a1) \<and>
      (\<exists>a1. len_jagged a = Inr (length (starts a), a1)) \<and>
      iter_jagged a =
        Inr (map (\<lambda>i. py_slice (content a) (starts a ! i) (stops a ! i))
               [0..<length (starts a)]))"
proof -
  have v: "validstartsstops sts stp = Inl ValueError \<longleftrightarrow> length sts > length stp"
    by (simp add: validstartsstops_def)
  have rest: "(\<exists>a1. valid a = Inr a1 \<and> isvalid a1) \<and>
      (\<exists>a1. len_jagged a = Inr (length (starts a), a1)) \<and>
      iter_jagged a =
        Inr (map (\<lambda>i. py_slice (content a) (starts a ! i) (stops a ! i))
               [0..<length (starts a)])"
    if lt: "length (starts a) < length (stops a)"
  proof -
    have ok: "validstartsstops (starts a) (stops a) = Inr ()"
      using lt by (simp add: validstartsstops_def)
    have va: "valid a = Inr (if isvalid a then a else a\<lparr>isvalid := True\<rparr>)"
      by (simp add: valid_def ok)
    have rows: "iter_rows (content a) (stops a) 0 (starts a) =
        Inr (map (\<lambda>k. py_slice (content a) (starts a ! k) (stops a ! (0 + k)))
               [0..<length (starts a)])"
      using lt by (intro iter_rows_in_range) simp
    show ?thesis
      using rows by (simp add: va len_jagged_def iter_jagged_def)
  qed
  show ?thesis using v rest by blast
qed

theorem fewer_starts_than_stops_witness:
  "length [0, 1 :: int] < length [1, 3, 4 :: int] \<and>
   validstartsstops [0, 1] [1, 3, 4] = Inr () \<and>
   validstartsstops [1, 3, 4] [0, 1] = Inl ValueError \<and>
   iter_jagged \<lparr>starts = [0, 1], stops = [1, 3, 4], content = [10, 20, 30, 40 :: int],
                offsets_cache = None, counts_cache = None, parents_cache = None,
                isvalid = False\<rparr> = Inr [[10], [20, 30]]"
  using fewer_starts_than_stops [of "[1, 3, 4]" "[0, 1]"
      "\<lparr>starts = [0, 1], stops = [1, 3, 4], content = [10, 20, 30, 40 :: int],
        offsets_cache = None, counts_cache = None, parents_cache = None,
        isvalid = False\<rparr>"]
  by (simp add: py_slice_def slice_bound_def upt_conv_Cons validstartsstops_def)

section \<open>Relayout\<close>

lemma iter_jagged_rows_of:
  "length (starts a) \<le> length (stops a) \<Longrightarrow> iter_jagged a = Inr (rows_of a)"
proof -
  assume le: "length (starts a) \<le> length (stops a)"
  have ok: "validstartsstops (starts a) (stops a) = Inr ()"
    using le by (simp add: validstartsstops_def)
  have rows: "iter_rows (content a) (stops a) 0 (starts a) =
      Inr (map (\<lambda>k. py_slice (content a) (starts a ! k) (stops a ! (0 + k)))
             [0..<length (starts a)])"
    using le by (intro iter_rows_in_range) simp
  show ?thesis
    using rows by (simp add: iter_jagged_def valid_def ok rows_of_def)
qed

lemma init_rows_ok:
  "init sts stp c = Inr a \<Longrightarrow> length sts = length stp \<Longrightarrow>
   rows_ok a \<and> starts a = sts \<and> stops a = stp \<and> content a = c"
  by (auto simp: init_def starts_setter_def stops_setter_def content_setter_def blank_def
      rows_ok_def list_all_iff not_less split: if_splits)

lemma counts_rows_ok:
  assumes "rows_ok a"
  shows "\<exists>a2. counts a = Inr (map2 (\<lambda>q p. q - p) (stops a) (starts a), a2) \<and>
           starts a2 = starts a \<and> stops a2 = stops a \<and> content a2 = content a \<and>
           rows_ok a2"
proof (cases "counts_cache a")
  case None
  have ok: "validstartsstops (starts a) (stops a) = Inr ()"
    using assms by (simp add: validstartsstops_def rows_ok_def)
  show ?thesis
    using assms None
    by (simp add: counts_def valid_def ok np_binop_def rows_ok_def)
next
  case (Some c)
  then show ?thesis
    using assms by (simp add: counts_def rows_ok_def)
qed

text \<open>
  A view with as many starts as stops (contiguous or not, with starts in order
  or not, with overlapping rows or not), relaid to its own starts and stops,
  leaves \<^verbatim>\<open>_tojagged\<close> by one of its two early returns: the result has these
  starts and stops and the same content, so that row \<open>i\<close> of the result is
  \<^verbatim>\<open>content[starts[i]:stops[i]]\<close> of the original, whether a copy is asked for
  or not and whether the arrays passed are the view's own objects or equal
  ones. The three copying branches are not entered.
\<close>

lemma tojagged_own_starts_stops:
  assumes "rows_ok a"
  shows "\<exists>r. tojagged z same a (Some (starts a)) (Some (stops a)) copy = Inr r \<and>
           starts r = starts a \<and> stops r = stops a \<and> content r = content a \<and>
           iter_jagged r = Inr (rows_of a)"
proof -
  obtain a2 where c: "counts a = Inr (map2 (\<lambda>q p. q - p) (stops a) (starts a), a2)"
    and a2: "starts a2 = starts a" "stops a2 = stops a" "content a2 = content a"
    using counts_rows_ok [OF assms] by blast
  have len: "length (starts a) = length (stops a)"
    and nonneg: "\<not> (\<exists>x \<in> set (starts a). x < 0)" "\<not> (\<exists>x \<in> set (stops a). x < 0)"
    using assms by (auto simp: rows_ok_def list_all_iff)
  have tg: "target a (Some (starts a)) (Some (stops a)) = Inr ((starts a, stops a), a2)"
    using len by (simp add: target_def np_binop_def c array_equal_def)
  have ok: "validstartsstops (starts a) (stops a) = Inr ()"
    using len by (simp add: validstartsstops_def)
  obtain r0 where cp: "copy_jagged a2 (Some (starts a)) (Some (stops a)) (content a2) = Inr r0"
    and r0: "starts r0 = starts a" "stops r0 = stops a" "content r0 = content a"
    using nonneg a2
    by (simp add: copy_jagged_def copy_index_def starts_setter_def stops_setter_def
        content_setter_def)
  define r where "r = (if \<not> copy \<and> same then a2 else r0)"
  have res: "tojagged z same a (Some (starts a)) (Some (stops a)) copy = Inr r"
    using cp by (simp add: tojagged_def tg ok a2 array_equal_def r_def)
  have fields: "starts r = starts a" "stops r = stops a" "content r = content a"
    using a2 r0 by (simp_all add: r_def)
  have "iter_jagged r = Inr (rows_of r)"
    using len fields by (intro iter_jagged_rows_of) simp
  then have "iter_jagged r = Inr (rows_of a)"
    using fields by (simp add: rows_of_def)
  then show ?thesis using res fields by blast
qed

lemma tojagged_own_starts_stops_example:
  "rows_ok \<lparr>starts = [2, 0, 1], stops = [4, 2, 1], content = [10, 20, 30, 40 :: int],
            offsets_cache = None, counts_cache = None, parents_cache = None,
            isvalid = False\<rparr> \<and>
   (\<exists>r. tojagged 0 False
          \<lparr>starts = [2, 0, 1], stops = [4, 2, 1], content = [10, 20, 30, 40 :: int],
            offsets_cache = None, counts_cache = None, parents_cache = None,
            isvalid = False\<rparr> (Some [2, 0, 1]) (Some [4, 2, 1]) True = Inr r \<and>
        iter_jagged r = Inr [[30, 40], [10, 20], []]) \<and>
   rows_ok \<lparr>starts = [0, 2], stops = [2, 3], content = [10, 20, 30 :: int],
            offsets_cache = Some [0, 2, 3], counts_cache = None, parents_cache = None,
            isvalid = False\<rparr> \<and>
   (\<exists>r. tojagged 0 True
          \<lparr>starts = [0, 2], stops = [2, 3], content = [10, 20, 30 :: int],
            offsets_cache = Some [0, 2, 3], counts_cache = None, parents_cache = None,
            isvalid = False\<rparr> (Some [0, 2]) (Some [2, 3]) False = Inr r \<and>
        iter_jagged r = Inr [[10, 20], [30]]) \<and>
   rows_ok \<lparr>starts = [0, 2], stops = [1, 3], content = [10, 20, 30 :: int],
            offsets_cache = None, counts_cache = Some [1, 1], parents_cache = None,
            isvalid = True\<rparr> \<and>
   (\<exists>r. tojagged 0 False
          \<lparr>starts = [0, 2], stops = [1, 3], content = [10, 20, 30 :: int],
            offsets_cache = None, counts_cache = Some [1, 1], parents_cache = None,
            isvalid = True\<rparr> (Some [0, 2]) (Some [1, 3]) False = Inr r \<and>
        iter_jagged r = Inr [[10], [30]])"
proof -
  let ?a = "\<lparr>starts = [2, 0, 1], stops = [4, 2, 1], content = [10, 20, 30, 40 :: int],
            offsets_cache = None, counts_cache = None, parents_cache = None,
            isvalid = False\<rparr>"
  let ?b = "\<lparr>starts = [0, 2], stops = [2, 3], content = [10, 20, 30 :: int],
            offsets_cache = Some [0, 2, 3], counts_cache = None, parents_cache = None,
            isvalid = False\<rparr>"
  let ?c = "\<lparr>starts = [0, 2], stops = [1, 3], content = [10, 20, 30 :: int],
            offsets_cache = None, counts_cache = Some [1, 1], parents_cache = None,
            isvalid = True\<rparr>"
  have oka: "rows_ok ?a" and okb: "rows_ok ?b" and okc: "rows_ok ?c"
    by (simp_all add: rows_ok_def)
  have rows: "rows_of ?a = [[30, 40], [10, 20], []]" "rows_of ?b = [[10, 20], [30]]"
      "rows_of ?c = [[10], [30]]"
    by (simp_all add: rows_of_def py_slice_def slice_bound_def upt_conv_Cons)
  have a: "\<exists>r. tojagged 0 False ?a (Some [2, 0, 1]) (Some [4, 2, 1]) True = Inr r \<and>
        iter_jagged r = Inr [[30, 40], [10, 20], []]"
    using tojagged_own_starts_stops [OF oka, of 0 False True] by (auto simp: rows)
  have b: "\<exists>r. tojagged 0 True ?b (Some [0, 2]) (Some [2, 3]) False = Inr r \<and>
        iter_jagged r = Inr [[10, 20], [30]]"
    using tojagged_own_starts_stops [OF okb, of 0 True False] by (auto simp: rows)
  have c: "\<exists>r. tojagged 0 False ?c (Some [0, 2]) (Some [1, 3]) False = Inr r \<and>
        iter_jagged r = Inr [[10], [30]]"
    using tojagged_own_starts_stops [OF okc, of 0 False False] by (auto simp: rows)
  show ?thesis using oka okb okc a b c by blast
qed

text \<open>
  C1. Relayout does not reproduce the rows on the three branches that copy the
  content, and not for every view on its own starts and stops. Each target
  below has the counts of the view, so \<^verbatim>\<open>_tojagged\<close> accepts it:

    \<^item> gather by parents (starts increasing, rows not adjacent): the rows
      \<open>[[1, 2], [4, 5]]\<close> relaid to starts \<open>[0, 2]\<close> and stops \<open>[2, 4]\<close> come out
      as \<open>[[1, 1], [2, 2]]\<close>, the content being indexed by the parents
      themselves;
    \<^item> stable sort (starts not increasing): the rows \<open>[[4, 5], [1, 2]]\<close> relaid
      to the same target come out as \<open>[[3, 4], [1, 2]]\<close>;
    \<^item> bulk copy (rows adjacent): the row \<open>[[-1, 0]]\<close> of a content that goes
      on after it, relaid to starts \<open>[0]\<close> and stops \<open>[2]\<close>, raises a value
      error, one item too many being read by \<^verbatim>\<open>stops[-1] + 1\<close>;
    \<^item> the view's own starts and stops: a view with fewer starts than stops,
      whose rows are \<open>[[10], [20, 30]]\<close>, raises a value error from
      \<^verbatim>\<open>stops - starts\<close>.
\<close>

theorem tojagged_loses_rows:
  "iter_jagged \<lparr>starts = [0, 3], stops = [2, 5], content = [1, 2, 3, 4, 5 :: int],
       offsets_cache = None, counts_cache = None, parents_cache = None, isvalid = False\<rparr>
     = Inr [[1, 2], [4, 5]] \<and>
   bind_err (tojagged 0 False
       \<lparr>starts = [0, 3], stops = [2, 5], content = [1, 2, 3, 4, 5 :: int],
         offsets_cache = None, counts_cache = None, parents_cache = None, isvalid = False\<rparr>
       (Some [0, 2]) (Some [2, 4]) True) iter_jagged = Inr [[1, 1], [2, 2]] \<and>
   iter_jagged \<lparr>starts = [3, 0], stops = [5, 2], content = [1, 2, 3, 4, 5 :: int],
       offsets_cache = None, counts_cache = None, parents_cache = None, isvalid = False\<rparr>
     = Inr [[4, 5], [1, 2]] \<and>
   bind_err (tojagged 0 False
       \<lparr>starts = [3, 0], stops = [5, 2], content = [1, 2, 3, 4, 5 :: int],
         offsets_cache = None, counts_cache = None, parents_cache = None, isvalid = False\<rparr>
       (Some [0, 2]) (Some [2, 4]) True) iter_jagged = Inr [[3, 4], [1, 2]] \<and>
   iter_jagged \<lparr>starts = [1], stops = [3], content = [9, - 1, 0, 7 :: int],
       offsets_cache = None, counts_cache = None, parents_cache = None, isvalid = False\<rparr>
     = Inr [[- 1, 0]] \<and>
   tojagged 0 False
       \<lparr>starts = [1], stops = [3], content = [9, - 1, 0, 7 :: int],
         offsets_cache = None, counts_cache = None, parents_cache = None, isvalid = False\<rparr>
       (Some [0]) (Some [2]) True = Inl ValueError \<and>
   iter_jagged \<lparr>starts = [0, 1], stops = [1, 3, 4], content = [10, 20, 30, 40 :: int],
       offsets_cache = None, counts_cache = None, parents_cache = None, isvalid = False\<rparr>
     = Inr [[10], [20, 30]] \<and>
   tojagged 0 False
       \<lparr>starts = [0, 1], stops = [1, 3, 4], content = [10, 20, 30, 40 :: int],
         offsets_cache = None, counts_cache = None, parents_cache = None, isvalid = False\<rparr>
       (Some [0, 1]) (Some [1, 3, 4]) True = Inl ValueError"
  by code_simp

section \<open>Setters, the validity flag and the caches\<close>

text \<open>
  C4, as the code has it. After an assignment through the starts, stops, offsets
  or counts setter the validity flag is cleared and every cached derived field
  that the assignment does not supply is \<open>None\<close> (the offsets setter supplies
  the offsets; the counts setter the counts and, for a one-dimensional array,
  the offsets). The content setter clears the validity flag and leaves the three
  caches as they are: they are computed from starts and stops alone. No one of
  these setters fails on an array without negative items.
\<close>

theorem setters_clear_flag_and_caches:
  "(list_all (\<lambda>x. 0 \<le> x) v \<longrightarrow>
      (\<exists>a'. starts_setter a v = Inr a' \<and> \<not> isvalid a' \<and> starts a' = v \<and>
            offsets_cache a' = None \<and> counts_cache a' = None \<and> parents_cache a' = None) \<and>
      (\<exists>a'. stops_setter a v = Inr a' \<and> \<not> isvalid a' \<and> stops a' = v \<and>
            offsets_cache a' = None \<and> counts_cache a' = None \<and> parents_cache a' = None) \<and>
      (\<exists>a'. offsets_setter a v = Inr a' \<and> \<not> isvalid a' \<and>
            starts a' = butlast v \<and> stops a' = tl v \<and>
            offsets_cache a' = Some v \<and> counts_cache a' = None \<and> parents_cache a' = None) \<and>
      (\<exists>a'. counts_setter a v = Inr a' \<and> \<not> isvalid a' \<and>
            starts a' = butlast (counts2offsets v) \<and> stops a' = tl (counts2offsets v) \<and>
            offsets_cache a' = Some (counts2offsets v) \<and> counts_cache a' = Some v \<and>
            parents_cache a' = None)) \<and>
   (\<exists>a'. content_setter a c = Inr a' \<and> \<not> isvalid a' \<and> content a' = c \<and>
         starts a' = starts a \<and> stops a' = stops a \<and>
         offsets_cache a' = offsets_cache a \<and> counts_cache a' = counts_cache a \<and>
         parents_cache a' = parents_cache a)"
proof -
  have nn: "list_all (\<lambda>x. 0 \<le> x) v \<Longrightarrow> \<not> (\<exists>x \<in> set v. x < 0)"
    by (auto simp: list_all_iff)
  show ?thesis
    by (simp add: starts_setter_def stops_setter_def offsets_setter_def counts_setter_def
        content_setter_def nn Let_def)
qed

theorem setters_clear_flag_and_caches_witness:
  "list_all (\<lambda>x. 0 \<le> x) [2, 0, 1 :: int] \<and>
   (\<exists>a'. counts_setter
           \<lparr>starts = [0], stops = [2], content = [10, 20, 30 :: int],
             offsets_cache = Some [0, 2], counts_cache = Some [2],
             parents_cache = Some [0, 0], isvalid = True\<rparr> [2, 0, 1] = Inr a' \<and>
         \<not> isvalid a' \<and> starts a' = [0, 2, 2] \<and> stops a' = [2, 2, 3] \<and>
         offsets_cache a' = Some [0, 2, 2, 3] \<and> counts_cache a' = Some [2, 0, 1] \<and>
         parents_cache a' = None)"
  using setters_clear_flag_and_caches [of "[2, 0, 1]"
      "\<lparr>starts = [0], stops = [2], content = [10, 20, 30 :: int],
        offsets_cache = Some [0, 2], counts_cache = Some [2],
        parents_cache = Some [0, 0], isvalid = True\<rparr>" "[]"]
  by (auto simp: counts2offsets_def)

text \<open>
  C4, as the claim has it, fails at the content setter: a view with its three
  caches filled keeps all three when a new content is assigned.
\<close>

theorem content_setter_keeps_caches:
  "content_setter
     \<lparr>starts = [0], stops = [2], content = [10, 20 :: int],
       offsets_cache = Some [0, 2], counts_cache = Some [2],
       parents_cache = Some [0, 0], isvalid = True\<rparr> [7, 8 :: int] =
   Inr \<lparr>starts = [0], stops = [2], content = [7, 8],
         offsets_cache = Some [0, 2], counts_cache = Some [2],
         parents_cache = Some [0, 0], isvalid = False\<rparr>"
  by (simp add: content_setter_def)

lemma parents_setter_raises: "parents_setter a v = Inl NameError"
  by (simp add: parents_setter_def)

section \<open>Validation of the byte-addressed variant\<close>

text \<open>
  C3. The test in \<^verbatim>\<open>ByteJaggedArray._valid\<close> is the negation of what its
  message says: with an item size of 4, a row of 4 bytes (an exact multiple) is
  refused with a value error, and a row of 3 bytes (not a multiple) is accepted.
\<close>

theorem valid_byte_refuses_exact_multiple:
  "valid_byte \<lparr>starts = [0], stops = [4], content = [1, 2, 3, 4 :: int],
       offsets_cache = None, counts_cache = None, parents_cache = None, isvalid = False,
       itemsize = 4\<rparr> = Inl ValueError \<and>
   valid_byte \<lparr>starts = [0], stops = [3], content = [1, 2, 3, 4 :: int],
       offsets_cache = None, counts_cache = None, parents_cache = None, isvalid = False,
       itemsize = 4\<rparr> =
     Inr \<lparr>starts = [0], stops = [3], content = [1, 2, 3, 4 :: int],
       offsets_cache = None, counts_cache = Some [3], parents_cache = None, isvalid = True,
       itemsize = 4\<rparr>"
  by code_simp

text \<open>What the method decides, for any view whose inherited validation
  passes: it raises exactly when some row is an exact multiple of the item
  size.\<close>

lemma valid_byte_raises_iff:
  assumes "\<not> isvalid b" "counts_cache b = None" "length (starts b) = length (stops b)"
  shows "valid_byte b = Inl ValueError \<longleftrightarrow>
         (\<exists>i < length (starts b).
            ((stops b ! i - starts b ! i) div itemsize b) * itemsize b = stops b ! i - starts b ! i)"
proof -
  have ok: "validstartsstops (starts b) (stops b) = Inr ()"
    using assms by (simp add: validstartsstops_def)
  let ?c = "map2 (\<lambda>q p. q - p) (stops b) (starts b)"
  have c: "counts (b\<lparr>isvalid := True\<rparr>) = Inr (?c, b\<lparr>isvalid := True, counts_cache := Some ?c\<rparr>)"
    using assms by (simp add: counts_def valid_def np_binop_def)
  have d: "divitemsize (b\<lparr>isvalid := True, counts_cache := Some ?c\<rparr>) ?c =
      map (\<lambda>v. v div itemsize b) ?c"
    by (simp add: divitemsize_def)
  have "valid_byte b = Inl ValueError \<longleftrightarrow>
      \<not> list_all id (map2 (\<lambda>d k. d * itemsize b \<noteq> k) (map (\<lambda>v. v div itemsize b) ?c) ?c)"
    using assms(1) by (simp add: valid_byte_def valid_def ok c d)
  also have "\<dots> \<longleftrightarrow> (\<exists>i < length ?c. (?c ! i div itemsize b) * itemsize b = ?c ! i)"
    by (auto simp: list_all_length)
  also have "\<dots> \<longleftrightarrow> (\<exists>i < length (starts b).
            ((stops b ! i - starts b ! i) div itemsize b) * itemsize b = stops b ! i - starts b ! i)"
    using assms(3) by auto
  finally show ?thesis .
qed

section \<open>Reductions and empty rows\<close>

lemma sum_scenario_A:
  "bind_err (fromiter [[10, 20, 30], [], [40, 50 :: int]]) (sum_jagged int64) = Inr [60, 0, 90]"
  by code_simp

lemma reductions_general_path_empty_row:
  "sum_jagged int64 \<lparr>starts = [0, 3], stops = [2, 3], content = [1, 2, 3 :: int],
       offsets_cache = None, counts_cache = None, parents_cache = None, isvalid = False\<rparr> =
     Inr [3, 0] \<and>
   prod_jagged int64 \<lparr>starts = [0, 3], stops = [2, 3], content = [1, 2, 3 :: int],
       offsets_cache = None, counts_cache = None, parents_cache = None, isvalid = False\<rparr> =
     Inr [2, 1] \<and>
   min_jagged int64 \<lparr>starts = [0, 3], stops = [2, 3], content = [1, 2, 3 :: int],
       offsets_cache = None, counts_cache = None, parents_cache = None, isvalid = False\<rparr> =
     Inr [1, 2 ^ 63 - 1] \<and>
   max_jagged int64 \<lparr>starts = [0, 3], stops = [2, 3], content = [1, 2, 3 :: int],
       offsets_cache = None, counts_cache = None, parents_cache = None, isvalid = False\<rparr> =
     Inr [2, - (2 ^ 63)]"
  by code_simp

text \<open>
  C5. On the contiguous path an empty row that ends the array gets no identity:
  its offset is the length of the content that \<^verbatim>\<open>reduceat\<close> is given, which
  NumPy refuses. For the rows \<open>[[1, 2], []]\<close>, built by \<^verbatim>\<open>fromiter\<close>, each of
  \<^verbatim>\<open>sum\<close>, \<^verbatim>\<open>prod\<close>, \<^verbatim>\<open>min\<close> and \<^verbatim>\<open>max\<close> raises an IndexError
  instead of returning the reduction of the first row and the identity for the
  second.
\<close>

theorem reductions_raise_on_trailing_empty_row:
  "bind_err (fromiter [[1, 2], [] :: int list]) (sum_jagged int64) = Inl IndexError \<and>
   bind_err (fromiter [[1, 2], [] :: int list]) (prod_jagged int64) = Inl IndexError \<and>
   bind_err (fromiter [[1, 2], [] :: int list]) (min_jagged int64) = Inl IndexError \<and>
   bind_err (fromiter [[1, 2], [] :: int list]) (max_jagged int64) = Inl IndexError"
  by code_simp

section \<open>Indexing by a boolean jagged array\<close>

lemma getitem_bool_scenario_B:
  "bind_err (fromiter [[1, 2], [3, 4 :: int]]) (\<lambda>view.
   bind_err (fromiter [[True, False], [False, True]]) (\<lambda>mask.
   bind_err (getitem_bool 0 False named view mask) iter_jagged)) = Inr [[1], [4]]"
  by code_simp

text \<open>
  C6. The counts of the result are the row sums of the mask, taken on the
  contiguous path of \<^verbatim>\<open>sum\<close>: a mask whose last row is empty makes
  \<^verbatim>\<open>reduceat\<close> raise. The rows \<open>[[1], []]\<close> masked by \<open>[[True], []]\<close>, both
  built by \<^verbatim>\<open>fromiter\<close>, raise an IndexError instead of giving \<open>[[1], []]\<close>.
\<close>

theorem getitem_bool_raises_on_trailing_empty_row:
  "bind_err (fromiter [[1], [] :: int list]) (\<lambda>view.
   bind_err (fromiter [[True], []]) (\<lambda>mask.
   getitem_bool 0 False named view mask)) = Inl IndexError"
  by code_simp

section \<open>Indexing by an integer jagged array\<close>

lemma getitem_int_scenario_C:
  "bind_err (fromiter [[1, 2, 3], [4, 5 :: int]]) (\<lambda>view.
   bind_err (fromiter [[- 1, 0], [1]]) (\<lambda>idx.
   bind_err (getitem_int 0 named view idx) iter_jagged)) = Inr [[3, 1], [5]]"
  by code_simp

lemma getitem_int_out_of_bounds:
  "bind_err (fromiter [[1, 2, 3], [4, 5 :: int]]) (\<lambda>view.
   bind_err (fromiter [[- 1, 0], [2]]) (\<lambda>idx.
   getitem_int 0 named view idx)) = Inl IndexError"
  by code_simp

text \<open>
  C2. An index that does not start at offset 0 is laid out again by
  \<^verbatim>\<open>_tojagged\<close>, whose bulk copy reads
  \<^verbatim>\<open>content[starts[0] : stops[-1] + 1]\<close>, one item more than the rows hold.
  The index with starts \<open>[1]\<close>, stops \<open>[3]\<close> and content \<open>[9, -1, 0, 7]\<close> (the
  one row \<open>[-1, 0]\<close>, as the middle row of \<open>[[9], [-1, 0], [7]]\<close> is when sliced
  out) applied to the rows \<open>[[1, 2, 3]]\<close> raises a ValueError: three items do
  not fit the two positions of the new layout. The claim gives \<open>[[3, 1]]\<close>.
\<close>

theorem getitem_int_raises_on_offset_index:
  "bind_err (fromiter [[1, 2, 3 :: int]]) (\<lambda>view.
   bind_err (init [1] [3] [9, - 1, 0, 7]) (\<lambda>idx.
   getitem_int 0 named view idx)) = Inl ValueError \<and>
   bind_err (init [1] [3] [9, - 1, 0, 7 :: int]) iter_jagged = Inr [[- 1, 0]]"
  by code_simp

section \<open>Position of the minimum\<close>

text \<open>Where the keys differ, the order that the sort leaves among equal keys
  does not show.\<close>

lemma argsort_default_distinct:
  assumes "distinct ks"
  shows "argsort_default rank ks = argsort ks"
proof -
  let ?key = "\<lambda>i. ks ! i"
  let ?xs = "sort_key ?key (sort_key rank [0..<length ks])"
  let ?ys = "sort_key ?key [0..<length ks]"
  have sets: "set ?xs = {0..<length ks}" "set ?ys = {0..<length ks}"
    by simp_all
  have inj: "inj_on ?key {0..<length ks}"
    using assms by (auto simp: inj_on_def nth_eq_iff_index_eq)
  have dx: "distinct (map ?key ?xs)"
    by (simp add: distinct_map sets inj)
  have dy: "distinct (map ?key ?ys)"
    by (simp add: distinct_map sets inj)
  have "map ?key ?xs = map ?key ?ys"
  proof (rule sorted_distinct_set_unique)
    show "sorted (map ?key ?xs)" by (rule sorted_sort_key)
    show "sorted (map ?key ?ys)" by (rule sorted_sort_key)
    show "distinct (map ?key ?xs)" by (rule dx)
    show "distinct (map ?key ?ys)" by (rule dy)
    show "set (map ?key ?xs) = set (map ?key ?ys)"
      unfolding set_map sets by (rule refl)
  qed
  then have "?xs = ?ys"
    by (rule map_inj_on) (simp add: sets inj)
  then show ?thesis
    by (simp add: argsort_default_def argsort_def)
qed

lemma argminmax_distinct_keys:
  assumes "valid a = Inr a1"
    and "np_put (replicate (length (content a1)) 0) (starts a1)
           [ceil_plus_one (fold max (tl (content a1)) (hd (content a1)))] = Inr shift0"
    and "distinct (map2 (\<lambda>p q. wrap64 (p + q)) (content a1)
           (scan (\<lambda>p q. wrap64 (p + q)) 0 shift0))"
  shows "argminmax rank a ismin = argminmax (\<lambda>_. 0) a ismin"
  by (simp add: argminmax_def assms Let_def argsort_default_distinct)

lemma argmin_scenario_D:
  "bind_err (bind_err (fromiter [[5, 1, 3], [], [2 :: int]]) (argmin rank)) iter_jagged =
   Inr [[1], [], [0]]"
proof -
  let ?a = "\<lparr>starts = [0, 3, 3], stops = [3, 3, 4], content = [5, 1, 3, 2 :: int],
            offsets_cache = Some [0, 3, 3, 4], counts_cache = None, parents_cache = None,
            isvalid = False\<rparr>"
  have f: "fromiter [[5, 1, 3], [], [2 :: int]] = Inr ?a"
    by code_simp
  have v: "valid ?a = Inr (?a\<lparr>isvalid := True\<rparr>)"
    by code_simp
  have p: "np_put (replicate (length (content (?a\<lparr>isvalid := True\<rparr>))) 0)
       (starts (?a\<lparr>isvalid := True\<rparr>))
       [ceil_plus_one (fold max (tl (content (?a\<lparr>isvalid := True\<rparr>)))
          (hd (content (?a\<lparr>isvalid := True\<rparr>))))] = Inr [6, 0, 0, 6]"
    by code_simp
  have d: "distinct (map2 (\<lambda>p q. wrap64 (p + q)) (content (?a\<lparr>isvalid := True\<rparr>))
       (scan (\<lambda>p q. wrap64 (p + q)) 0 [6, 0, 0, 6]))"
    by code_simp
  have eq: "argmin rank ?a = argmin (\<lambda>_. 0) ?a"
    unfolding argmin_def by (rule argminmax_distinct_keys [OF v p d])
  have c: "bind_err (argmin (\<lambda>_. 0) ?a) iter_jagged = Inr [[1], [], [0]]"
    by code_simp
  show ?thesis
    unfolding f bind_err.simps eq by (rule c)
qed

text \<open>
  C7. The shift added at each start is the maximum of the content plus one,
  which separates two rows only when no item is further below the maximum than
  that. For the rows \<open>[[1], [-10]]\<close> the shifted keys are \<open>3\<close> and \<open>-6\<close>, the
  second row sorts before the first, and \<^verbatim>\<open>argmin\<close> returns the rows
  \<open>[[1], [-1]]\<close>; the position of the minimum within its row is 0 in both.
\<close>

theorem argmin_wrong_with_negative_content:
  "bind_err (bind_err (fromiter [[1], [- 10 :: int]]) (argmin rank)) iter_jagged =
   Inr [[1], [- 1]]"
proof -
  let ?a = "\<lparr>starts = [0, 1], stops = [1, 2], content = [1, - 10 :: int],
            offsets_cache = Some [0, 1, 2], counts_cache = None, parents_cache = None,
            isvalid = False\<rparr>"
  have f: "fromiter [[1], [- 10 :: int]] = Inr ?a"
    by code_simp
  have v: "valid ?a = Inr (?a\<lparr>isvalid := True\<rparr>)"
    by code_simp
  have p: "np_put (replicate (length (content (?a\<lparr>isvalid := True\<rparr>))) 0)
       (starts (?a\<lparr>isvalid := True\<rparr>))
       [ceil_plus_one (fold max (tl (content (?a\<lparr>isvalid := True\<rparr>)))
          (hd (content (?a\<lparr>isvalid := True\<rparr>))))] = Inr [2, 2]"
    by code_simp
  have d: "distinct (map2 (\<lambda>p q. wrap64 (p + q)) (content (?a\<lparr>isvalid := True\<rparr>))
       (scan (\<lambda>p q. wrap64 (p + q)) 0 [2, 2]))"
    by code_simp
  have eq: "argmin rank ?a = argmin (\<lambda>_. 0) ?a"
    unfolding argmin_def by (rule argminmax_distinct_keys [OF v p d])
  have c: "bind_err (argmin (\<lambda>_. 0) ?a) iter_jagged = Inr [[1], [- 1]]"
    by code_simp
  show ?thesis
    unfolding f bind_err.simps eq by (rule c)
qed

text \<open>The float64 that \<^verbatim>\<open>numpy.ceil\<close> returns loses the last bit of a
  maximum above \<open>2 ^ 53\<close>.\<close>

lemma ceil_plus_one_examples:
  "ceil_plus_one 5 = 6" "ceil_plus_one (- 7) = - 6"
  "ceil_plus_one 9007199254740993 = 9007199254740992"
  "ceil_plus_one 9007199254740995 = 9007199254740996"
  "ceil_plus_one 9223372036854775807 = - 9223372036854775808"
  by code_simp+

section \<open>Broadcasting a flat value\<close>

lemma np_take_result:
  "np_take xs idx = Inr r \<Longrightarrow>
   r = map (\<lambda>i. xs ! nat (if i < 0 then i + int (length xs) else i)) idx"
proof (induction idx arbitrary: r)
  case Nil
  then show ?case by simp
next
  case (Cons i idx)
  then show ?case
    by (cases "np_item xs i"; cases "np_take xs idx")
       (auto simp: np_item_def Let_def split: if_splits)
qed

lemma put_mask_map_filter:
  "put_mask (map c xs) (map P xs) (map f (filter P xs)) =
   map (\<lambda>x. if P x then f x else c x) xs"
  by (induction xs) auto

lemma valid_keeps_starts:
  "valid a = Inr a1 \<Longrightarrow> starts a1 = starts a \<and> stops a1 = stops a"
  by (auto simp: valid_def validstartsstops_def split: if_splits)

lemma offsets_keeps_starts:
  assumes "offsets a = Inr (v, a1)"
  shows "starts a1 = starts a \<and> stops a1 = stops a"
proof (cases "offsets_cache a")
  case (Some c)
  then show ?thesis using assms by (simp add: offsets_def)
next
  case None
  then obtain a0 where v: "valid a = Inr a0"
    using assms by (cases "valid a") (simp_all add: offsets_def)
  note k = valid_keeps_starts [OF v]
  show ?thesis
    using assms None v k
    by (cases "np_item (stops a0) (- 1)")
       (auto simp: offsets_def Let_def split: if_splits)
qed

lemma parents_keeps_starts:
  assumes "parents a = Inr (ps, a1)"
  shows "starts a1 = starts a \<and> stops a1 = stops a"
proof (cases "parents_cache a")
  case (Some c)
  then show ?thesis using assms by (simp add: parents_def)
next
  case None
  then obtain a0 where v: "valid a = Inr a0"
    using assms by (cases "valid a") (simp_all add: parents_def)
  note k = valid_keeps_starts [OF v]
  show ?thesis
  proof (cases "offsets a0")
    case (Inl e)
    then show ?thesis
      using assms None v k by (cases e) (auto simp: parents_def Let_def)
  next
    case (Inr r)
    obtain offs a2 where r: "r = (offs, a2)" by (cases r)
    note k2 = offsets_keeps_starts [OF Inr [unfolded r]]
    show ?thesis
      using assms None v k k2 Inr r by (auto simp: parents_def Let_def)
  qed
qed

text \<open>What \<^verbatim>\<open>_broadcast\<close> writes when it returns: the item of the flat
  value at the parent, at every position that has a parent, and the arbitrary
  fill elsewhere.\<close>

lemma broadcast_items:
  assumes p: "parents a = Inr (ps, a1)"
    and b: "broadcast fill a (Flat ds) = Inr out"
  shows "content out = map (\<lambda>p. if 0 \<le> p then ds ! nat p else fill) ps"
proof -
  have m: "np_mask ps (map (\<lambda>p. 0 \<le> p) ps) = Inr (filter (\<lambda>p. 0 \<le> p) ps)"
  proof -
    have "map fst (filter snd (zip xs (map (\<lambda>p. 0 \<le> p) xs))) = filter (\<lambda>p. 0 \<le> p) xs"
      for xs :: "int list"
      by (induction xs) auto
    then show ?thesis by (simp add: np_mask_def)
  qed
  obtain vs where t: "np_take ds (filter (\<lambda>p. 0 \<le> p) ps) = Inr vs"
    using b by (cases "np_take ds (filter (\<lambda>p. 0 \<le> p) ps)") (simp_all add: broadcast_def p m)
  have vs: "vs = map (\<lambda>p. ds ! nat p) (filter (\<lambda>p. 0 \<le> p) ps)"
    using np_take_result [OF t] by (simp cong: map_cong)
  have k: "length (filter id (map (\<lambda>p. 0 \<le> p) ps)) = length vs"
  proof -
    have "length (filter id (map (\<lambda>p. 0 \<le> p) xs)) = length (filter (\<lambda>p. 0 \<le> p) xs)"
      for xs :: "int list"
      by (induction xs) auto
    then show ?thesis by (simp add: vs)
  qed
  have pm: "np_put_mask (replicate (length ps) fill) (map (\<lambda>p. 0 \<le> p) ps) vs =
      Inr (map (\<lambda>p. if 0 \<le> p then ds ! nat p else fill) ps)"
  proof -
    have "put_mask (map (\<lambda>_. fill) ps) (map (\<lambda>p. 0 \<le> p) ps)
            (map (\<lambda>p. ds ! nat p) (filter (\<lambda>p. 0 \<le> p) ps)) =
          map (\<lambda>p. if 0 \<le> p then ds ! nat p else fill) ps"
      by (rule put_mask_map_filter)
    then show ?thesis
      using k by (simp add: np_put_mask_def Let_def vs map_replicate_const)
  qed
  show ?thesis
    using b by (auto simp: broadcast_def p m t pm content_setter_def)
qed

text \<open>The dispatch of elementwise operators does compare the lengths.\<close>

lemma ufunc_operand_length_mismatch:
  assumes "parents j = Inr (ps, j1)" "length ds \<noteq> length (starts j)"
  shows "ufunc_operand fill self j (Flat ds) = Inl ValueError"
  using assms parents_keeps_starts [OF assms(1)]
  by (simp add: ufunc_operand_def)

text \<open>
  C8. \<^verbatim>\<open>_broadcast\<close> compares no lengths. Over the two rows \<open>[[1, 2], [3]]\<close>
  a flat value of three items is accepted, its third item unused, and a flat
  value of one item raises NumPy's IndexError when the second row's parent is
  looked up in it; neither is the value error that the check in
  \<^verbatim>\<open>__array_ufunc__\<close> raises for the same operands.
\<close>

theorem broadcast_compares_no_lengths:
  "bind_err (fromiter [[1, 2], [3 :: int]]) (\<lambda>view.
   bind_err (broadcast (0 :: int) view (Flat [10, 20, 30])) (\<lambda>out. Inr (content out))) =
     Inr [10, 10, 20] \<and>
   bind_err (fromiter [[1, 2], [3 :: int]]) (\<lambda>view.
   broadcast (0 :: int) view (Flat [10])) = Inl IndexError \<and>
   bind_err (fromiter [[1, 2], [3 :: int]]) (\<lambda>view.
   ufunc_operand (0 :: int) view view (Flat [10, 20, 30])) = Inl ValueError \<and>
   bind_err (fromiter [[1, 2], [3 :: int]]) (\<lambda>view.
   ufunc_operand (0 :: int) view view (Flat [10])) = Inl ValueError"
  by code_simp

section \<open>Facts about the array primitives\<close>

lemma np_take_in_range:
  "\<forall>i \<in> set idx. 0 \<le> i \<and> i < int (length xs) \<Longrightarrow>
   np_take xs idx = Inr (map (\<lambda>i. xs ! nat i) idx)"
  by (induction idx) (simp_all add: np_item_def)

lemma np_binop_same_length:
  "length xs = length ys \<Longrightarrow> np_binop f xs ys = Inr (map2 f xs ys)"
  by (simp add: np_binop_def)

lemma put_items_run:
  "m + length vs \<le> length xs \<Longrightarrow>
   put_items xs (zip (map int [m..<m + length vs]) vs) =
     Inr (take m xs @ vs @ drop (m + length vs) xs)"
proof (induction vs arbitrary: m xs)
  case Nil
  then show ?case by simp
next
  case (Cons v vs)
  have upt: "[m..<m + length (v # vs)] = m # [Suc m..<Suc m + length vs]"
    using upt_conv_Cons [of m "m + length (v # vs)"] by simp
  have step: "put_items (xs[m := v]) (zip (map int [Suc m..<Suc m + length vs]) vs) =
      Inr (take (Suc m) (xs[m := v]) @ vs @ drop (Suc m + length vs) (xs[m := v]))"
    using Cons.prems by (intro Cons.IH) simp
  have lt: "m < length xs" using Cons.prems by simp
  have tk: "take (Suc m) (xs[m := v]) = take m xs @ [v]"
    using lt by (simp add: take_Suc_conv_app_nth)
  have first: "put_items xs (zip (map int (m # [Suc m..<Suc m + length vs])) (v # vs)) =
      put_items (xs[m := v]) (zip (map int [Suc m..<Suc m + length vs]) vs)"
    using lt by simp
  have "put_items xs (zip (map int [m..<m + length (v # vs)]) (v # vs)) =
      Inr (take m xs @ [v] @ vs @ drop (Suc m + length vs) xs)"
    unfolding upt first step tk by simp
  then show ?case by simp
qed

lemma np_put_all_positions:
  assumes "length vs = length xs"
  shows "np_put xs (map int [0..<length xs]) vs = Inr vs"
proof -
  have "put_items xs (zip (map int [0..<0 + length vs]) vs) =
      Inr (take 0 xs @ vs @ drop (0 + length vs) xs)"
    using assms by (intro put_items_run) simp
  then show ?thesis using assms by (simp add: np_put_def)
qed

lemma length_fill_slice [simp]: "length (fill_slice xs a b v) = length xs"
  by (simp add: fill_slice_def Let_def)

lemma fill_slice_nth:
  assumes "k < length xs" "0 \<le> a" "0 \<le> b"
  shows "fill_slice xs a b v ! k = (if a \<le> int k \<and> int k < b then v else xs ! k)"
proof -
  have "slice_bound (int (length xs)) a \<le> k \<longleftrightarrow> a \<le> int k"
    using assms by (auto simp: slice_bound_def)
  moreover have "k < slice_bound (int (length xs)) b \<longleftrightarrow> int k < b"
    using assms by (auto simp: slice_bound_def)
  ultimately show ?thesis
    using assms(1) by (simp add: fill_slice_def Let_def)
qed

lemma length_assign_rows [simp]: "length (assign_rows ps i rows) = length ps"
  by (induction rows arbitrary: ps i) auto

lemma assign_rows_untouched:
  assumes "k < length ps" "\<forall>(a, b) \<in> set rows. 0 \<le> a \<and> 0 \<le> b \<and> \<not> (a \<le> int k \<and> int k < b)"
  shows "assign_rows ps i rows ! k = ps ! k"
  using assms
proof (induction rows arbitrary: ps i)
  case Nil
  then show ?case by simp
next
  case (Cons r rows)
  obtain a b where r: "r = (a, b)" by (cases r)
  have "assign_rows (fill_slice ps a b i) (i + 1) rows ! k = fill_slice ps a b i ! k"
    using Cons.prems by (intro Cons.IH) auto
  also have "\<dots> = ps ! k"
    using Cons.prems r by (auto simp: fill_slice_nth)
  finally show ?case by (simp add: r)
qed

lemma assign_rows_last_owner:
  assumes "k < length ps" "j < length rows"
    and "\<forall>(a, b) \<in> set rows. 0 \<le> a \<and> 0 \<le> b"
    and "fst (rows ! j) \<le> int k" "int k < snd (rows ! j)"
    and "\<forall>j'. j < j' \<and> j' < length rows \<longrightarrow>
           \<not> (fst (rows ! j') \<le> int k \<and> int k < snd (rows ! j'))"
  shows "assign_rows ps i rows ! k = i + int j"
  using assms
proof (induction rows arbitrary: ps i j)
  case Nil
  then show ?case by simp
next
  case (Cons r rows)
  obtain a b where r: "r = (a, b)" by (cases r)
  have nonneg: "0 \<le> a" "0 \<le> b" "\<forall>(a, b) \<in> set rows. 0 \<le> a \<and> 0 \<le> b"
    using Cons.prems(3) r by auto
  show ?case
  proof (cases j)
    case 0
    have free: "\<forall>(a, b) \<in> set rows. 0 \<le> a \<and> 0 \<le> b \<and> \<not> (a \<le> int k \<and> int k < b)"
    proof (clarify, intro conjI)
      fix a' b' assume m: "(a', b') \<in> set rows"
      then show "0 \<le> a'" "0 \<le> b'" using nonneg(3) by auto
      from m obtain j' where j': "j' < length rows" "rows ! j' = (a', b')"
        by (auto simp: in_set_conv_nth)
      have "\<not> (fst ((r # rows) ! Suc j') \<le> int k \<and> int k < snd ((r # rows) ! Suc j'))"
        using Cons.prems(6) j'(1) 0 by (intro Cons.prems(6) [rule_format]) simp
      then show "\<not> (a' \<le> int k \<and> int k < b')" using j'(2) by simp
    qed
    have "assign_rows (fill_slice ps a b i) (i + 1) rows ! k = fill_slice ps a b i ! k"
      using Cons.prems(1) free by (intro assign_rows_untouched) auto
    also have "\<dots> = i"
      using Cons.prems(1,4,5) nonneg r 0 by (simp add: fill_slice_nth)
    finally show ?thesis using 0 by (simp add: r)
  next
    case (Suc j0)
    have later: "\<forall>j'. j0 < j' \<and> j' < length rows \<longrightarrow>
           \<not> (fst (rows ! j') \<le> int k \<and> int k < snd (rows ! j'))"
    proof (intro allI impI)
      fix j' assume "j0 < j' \<and> j' < length rows"
      then have "\<not> (fst ((r # rows) ! Suc j') \<le> int k \<and> int k < snd ((r # rows) ! Suc j'))"
        using Suc by (intro Cons.prems(6) [rule_format]) simp
      then show "\<not> (fst (rows ! j') \<le> int k \<and> int k < snd (rows ! j'))" by simp
    qed
    have "assign_rows (fill_slice ps a b i) (i + 1) rows ! k = (i + 1) + int j0"
      using Cons.prems Suc nonneg(3) later by (intro Cons.IH) auto
    then show ?thesis using Suc by (simp add: r)
  qed
qed

section \<open>Offsets of counts and their parents\<close>

lemma length_cumsum_from [simp]: "length (cumsum_from acc xs) = length xs"
  by (induction xs arbitrary: acc) auto

lemma length_counts2offsets [simp]: "length (counts2offsets cs) = Suc (length cs)"
  by (simp add: counts2offsets_def)

lemma cumsum_from_nth:
  "i < length xs \<Longrightarrow> cumsum_from acc xs ! i = acc + sum_list (take (Suc i) xs)"
proof (induction xs arbitrary: acc i)
  case Nil
  then show ?case by simp
next
  case (Cons x xs)
  then show ?case by (cases i) (simp_all add: add.assoc)
qed

lemma counts2offsets_nth:
  "i \<le> length cs \<Longrightarrow> counts2offsets cs ! i = sum_list (take i cs)"
  by (cases i) (simp_all add: counts2offsets_def cumsum_from_nth)

lemma counts2offsets_Suc:
  assumes "i < length cs"
  shows "counts2offsets cs ! Suc i = counts2offsets cs ! i + cs ! i"
  using assms by (simp add: counts2offsets_nth take_Suc_conv_app_nth)

lemma counts2offsets_mono:
  assumes "\<forall>c \<in> set cs. 0 \<le> c" "i \<le> j" "j \<le> length cs"
  shows "counts2offsets cs ! i \<le> counts2offsets cs ! j"
  using assms(2,3)
proof (induction j)
  case 0
  then show ?case by simp
next
  case (Suc j)
  show ?case
  proof (cases "i = Suc j")
    case True
    then show ?thesis by simp
  next
    case False
    then have "counts2offsets cs ! i \<le> counts2offsets cs ! j"
      using Suc by simp
    moreover have "0 \<le> cs ! j"
      using assms(1) Suc.prems by simp
    ultimately show ?thesis
      using Suc.prems by (simp add: counts2offsets_Suc)
  qed
qed

lemma counts2offsets_nonneg:
  assumes "\<forall>c \<in> set cs. 0 \<le> c" "i \<le> length cs"
  shows "0 \<le> counts2offsets cs ! i"
  using counts2offsets_mono [OF assms(1), of 0 i] assms(2)
  by (simp add: counts2offsets_nth)

lemma last_counts2offsets: "last (counts2offsets cs) = counts2offsets cs ! length cs"
proof -
  have "counts2offsets cs \<noteq> []" by (simp add: counts2offsets_def)
  then show ?thesis by (simp add: last_conv_nth)
qed

lemma butlast_counts2offsets:
  "butlast (counts2offsets cs) = map (\<lambda>i. counts2offsets cs ! i) [0..<length cs]"
  by (rule nth_equalityI) (simp_all add: nth_butlast)

lemma tl_counts2offsets:
  "tl (counts2offsets cs) = map (\<lambda>i. counts2offsets cs ! Suc i) [0..<length cs]"
  by (rule nth_equalityI) (simp_all add: nth_tl)

text \<open>Every position below the last offset lies in exactly one row, and
  \<open>offsets2parents\<close> gives it that row.\<close>

lemma offsets2parents_of_counts:
  assumes nonneg: "\<forall>c \<in> set cs. 0 \<le> c"
    and j: "j < length cs"
    and lo: "counts2offsets cs ! j \<le> int k" and hi: "int k < counts2offsets cs ! Suc j"
  shows "offsets2parents (counts2offsets cs) ! k = int j"
proof -
  let ?offs = "counts2offsets cs"
  let ?rows = "zip (butlast ?offs) (tl ?offs)"
  have len: "length ?rows = length cs" by simp
  have row: "?rows ! i = (?offs ! i, ?offs ! Suc i)" if "i < length cs" for i
    using that by (simp add: nth_butlast nth_tl)
  have kN: "int k < last ?offs"
  proof -
    have "?offs ! Suc j \<le> ?offs ! length cs"
      using j by (intro counts2offsets_mono [OF nonneg]) simp_all
    then show ?thesis using hi by (simp add: last_counts2offsets)
  qed
  have klen: "k < length (replicate (nat (last ?offs)) (- 1 :: int))"
    using kN by simp
  have rows_nonneg: "\<forall>(a, b) \<in> set ?rows. 0 \<le> a \<and> 0 \<le> b"
  proof (clarify)
    fix a b assume "(a, b) \<in> set ?rows"
    then obtain i where i: "i < length cs" "?rows ! i = (a, b)"
      using len by (metis in_set_conv_nth)
    then have "a = ?offs ! i" "b = ?offs ! Suc i" using row by simp_all
    then show "0 \<le> a \<and> 0 \<le> b"
      using i(1) counts2offsets_nonneg [OF nonneg] by simp
  qed
  have later: "\<forall>j'. j < j' \<and> j' < length ?rows \<longrightarrow>
      \<not> (fst (?rows ! j') \<le> int k \<and> int k < snd (?rows ! j'))"
  proof (intro allI impI)
    fix j' assume j': "j < j' \<and> j' < length ?rows"
    then have "?offs ! Suc j \<le> ?offs ! j'"
      by (intro counts2offsets_mono [OF nonneg]) simp_all
    moreover have "?rows ! j' = (?offs ! j', ?offs ! Suc j')"
      using j' by (intro row) simp
    ultimately show "\<not> (fst (?rows ! j') \<le> int k \<and> int k < snd (?rows ! j'))"
      using hi by (simp del: nth_zip)
  qed
  have rj: "?rows ! j = (?offs ! j, ?offs ! Suc j)" using j by (rule row)
  have lo': "fst (?rows ! j) \<le> int k" unfolding rj using lo by simp
  have hi': "int k < snd (?rows ! j)" unfolding rj using hi by simp
  have jr: "j < length ?rows" using j by simp
  have "assign_rows (replicate (nat (last ?offs)) (- 1)) 0 ?rows ! k = 0 + int j"
    by (rule assign_rows_last_owner [OF klen jr rows_nonneg lo' hi' later])
  then show ?thesis
    by (simp add: offsets2parents_def counts2offsets_def)
qed

lemma length_offsets2parents_of_counts:
  "length (offsets2parents (counts2offsets cs)) = nat (counts2offsets cs ! length cs)"
  by (simp add: offsets2parents_def last_counts2offsets [symmetric]) (simp add: counts2offsets_def)

lemma position_has_row:
  assumes nonneg: "\<forall>c \<in> set cs. 0 \<le> c" and k: "int k < counts2offsets cs ! length cs"
  shows "\<exists>j < length cs. counts2offsets cs ! j \<le> int k \<and> int k < counts2offsets cs ! Suc j"
proof -
  let ?offs = "counts2offsets cs"
  define j where "j = (LEAST i. int k < ?offs ! Suc i)"
  have ex: "int k < ?offs ! Suc (length cs - 1)"
  proof (cases "length cs")
    case 0
    then show ?thesis using k by (simp add: counts2offsets_nth)
  next
    case (Suc m)
    then show ?thesis using k by simp
  qed
  have hi: "int k < ?offs ! Suc j"
    unfolding j_def using ex by (rule LeastI)
  have jle: "j \<le> length cs - 1"
    unfolding j_def using ex by (rule Least_le)
  have pos: "0 < length cs"
    using k by (cases "length cs") (simp_all add: counts2offsets_nth)
  have lo: "?offs ! j \<le> int k"
  proof (cases j)
    case 0
    then show ?thesis by (simp add: counts2offsets_nth)
  next
    case (Suc j0)
    have "\<not> int k < ?offs ! Suc j0"
      using not_less_Least [of j0 "\<lambda>i. int k < ?offs ! Suc i"] Suc
      by (simp add: j_def)
    then show ?thesis using Suc by simp
  qed
  have jlt: "j < length cs" using jle pos by linarith
  show ?thesis using hi lo jlt by blast
qed

section \<open>Pairs of positions\<close>

lemma valid_rows_ok:
  assumes "rows_ok a"
  shows "\<exists>a1. valid a = Inr a1 \<and> starts a1 = starts a \<and> stops a1 = stops a \<and>
           content a1 = content a \<and> rows_ok a1"
proof -
  have ok: "validstartsstops (starts a) (stops a) = Inr ()"
    using assms by (simp add: validstartsstops_def rows_ok_def)
  show ?thesis
    using assms by (auto simp: valid_def ok rows_ok_def split: option.splits)
qed

text \<open>The items \<open>j\<close> of one row of \<^verbatim>\<open>argcross\<close>, as the source computes
  them, are the pairs of the two ranges of positions, the left one varying
  slowest.\<close>

lemma pairs_of_row:
  assumes "0 \<le> ca" "0 \<le> cb"
  shows "map (\<lambda>j. (sa + int j div cb, sb + int j - cb * (int j div cb))) [0..<nat (ca * cb)] =
         List.product [sa..sa + ca - 1] [sb..sb + cb - 1]"
proof (rule nth_equalityI)
  show "length (map (\<lambda>j. (sa + int j div cb, sb + int j - cb * (int j div cb)))
          [0..<nat (ca * cb)]) = length (List.product [sa..sa + ca - 1] [sb..sb + cb - 1])"
    using assms by (simp add: nat_mult_distrib)
next
  fix j
  assume "j < length (map (\<lambda>j. (sa + int j div cb, sb + int j - cb * (int j div cb)))
              [0..<nat (ca * cb)])"
  then have j: "j < nat ca * nat cb"
    using assms by (simp add: nat_mult_distrib)
  have cbpos: "0 < nat cb"
    using j by (cases "nat cb") simp_all
  have q: "j div nat cb < nat ca"
    using j by (simp add: less_mult_imp_div_less)
  have r: "j mod nat cb < nat cb"
    using cbpos by simp
  have qi: "int (j div nat cb) = int j div cb"
    using assms(2) by (simp add: zdiv_int)
  have ri: "int (j mod nat cb) = int j - cb * (int j div cb)"
    using assms(2) by (simp add: zmod_int minus_mult_div_eq_mod)
  have l: "[sa..sa + ca - 1] ! (j div nat cb) = sa + int (j div nat cb)"
    using q by (intro nth_upto) linarith
  have rr: "[sb..sb + cb - 1] ! (j mod nat cb) = sb + int (j mod nat cb)"
    using r by (intro nth_upto) linarith
  have "List.product [sa..sa + ca - 1] [sb..sb + cb - 1] ! j =
      ([sa..sa + ca - 1] ! (j div length [sb..sb + cb - 1]),
       [sb..sb + cb - 1] ! (j mod length [sb..sb + cb - 1]))"
    using j assms by (intro product_nth) simp
  also have "\<dots> = (sa + int j div cb, sb + int j - cb * (int j div cb))"
    using assms l rr qi ri by simp
  finally show "map (\<lambda>j. (sa + int j div cb, sb + int j - cb * (int j div cb)))
          [0..<nat (ca * cb)] ! j = List.product [sa..sa + ca - 1] [sb..sb + cb - 1] ! j"
    using j assms by (simp add: nat_mult_distrib)
qed

lemma map2_map_same: "map2 f (map g xs) (map h xs) = map (\<lambda>x. f (g x) (h x)) xs"
  by (induction xs) auto

lemma wrap64_nonneg: "0 \<le> x \<Longrightarrow> x < 2 ^ 63 \<Longrightarrow> wrap64 x = x"
  by (simp add: wrap64_def)

lemma wrap64_diff_left: "wrap64 (wrap64 x - y) = wrap64 (x - y)"
proof -
  have "(wrap64 x - y + 2 ^ 63) mod 2 ^ 64 = ((x + 2 ^ 63) mod 2 ^ 64 - y) mod 2 ^ 64"
    by (simp add: wrap64_def)
  also have "\<dots> = (x + 2 ^ 63 - y) mod 2 ^ 64"
    by (rule mod_diff_left_eq)
  also have "\<dots> = (x - y + 2 ^ 63) mod 2 ^ 64"
    by (simp add: algebra_simps)
  finally show ?thesis
    unfolding wrap64_def [of "wrap64 x - y"] wrap64_def [of "x - y"] by simp
qed

lemma quotient_bounds:
  fixes x ca cb :: int
  assumes "0 \<le> x" "x < ca * cb" "0 \<le> ca" "0 \<le> cb"
  shows "0 < cb" "0 \<le> x div cb" "x div cb < ca" "0 \<le> cb * (x div cb)"
    "cb * (x div cb) \<le> x" "x - cb * (x div cb) < cb"
proof -
  show pos: "0 < cb"
  proof (rule ccontr)
    assume "\<not> 0 < cb"
    then have "cb = 0" using assms(4) by simp
    then show False using assms(1,2) by simp
  qed
  show q0: "0 \<le> x div cb"
    using assms(1) pos by (simp add: pos_imp_zdiv_nonneg_iff)
  have m: "x - cb * (x div cb) = x mod cb"
    by (rule minus_mult_div_eq_mod)
  have m0: "0 \<le> x mod cb" and m1: "x mod cb < cb"
    using pos by simp_all
  show "cb * (x div cb) \<le> x" using m m0 by linarith
  show "x - cb * (x div cb) < cb" using m m1 by linarith
  show "0 \<le> cb * (x div cb)" using q0 pos by simp
  show "x div cb < ca"
  proof (rule ccontr)
    assume "\<not> x div cb < ca"
    then have "ca \<le> x div cb" by simp
    then have "ca * cb \<le> (x div cb) * cb"
      using pos by (intro mult_right_mono) simp_all
    also have "\<dots> \<le> x" using m m0 by (simp add: mult.commute)
    finally show False using assms(2) by simp
  qed
qed

lemma argcross_rows:
  assumes ra: "rows_ok a" and rb: "rows_ok b"
    and len: "length (starts a) = length (starts b)"
    and oa: "list_all2 (\<lambda>s t. s \<le> t) (starts a) (stops a)"
    and ob: "list_all2 (\<lambda>s t. s \<le> t) (starts b) (stops b)"
    and ia: "list_all (\<lambda>t. t < 2 ^ 63) (stops a)"
    and ib: "list_all (\<lambda>t. t < 2 ^ 63) (stops b)"
    and tot: "sum_list (map2 (\<lambda>p q. p * q) (map2 (\<lambda>q p. q - p) (stops a) (starts a))
                                             (map2 (\<lambda>q p. q - p) (stops b) (starts b))) < 2 ^ 63"
  shows "\<exists>out. argcross fill a b = Inr out \<and>
           starts out = butlast (counts2offsets
             (map2 (\<lambda>p q. p * q) (map2 (\<lambda>q p. q - p) (stops a) (starts a))
                                    (map2 (\<lambda>q p. q - p) (stops b) (starts b)))) \<and>
           stops out = tl (counts2offsets
             (map2 (\<lambda>p q. p * q) (map2 (\<lambda>q p. q - p) (stops a) (starts a))
                                    (map2 (\<lambda>q p. q - p) (stops b) (starts b)))) \<and>
           iter_jagged out =
             Inr (map (\<lambda>i. List.product [starts a ! i..stops a ! i - 1]
                                          [starts b ! i..stops b ! i - 1])
                    [0..<length (starts a)])"
proof -
  define n where "n = length (starts a)"
  define ca where "ca = map2 (\<lambda>q p. q - p) (stops a) (starts a)"
  define cb where "cb = map2 (\<lambda>q p. q - p) (stops b) (starts b)"
  define cc where "cc = map2 (\<lambda>p q. p * q) ca cb"
  define offs where "offs = counts2offsets cc"
  define N where "N = nat (offs ! n)"
  define ps where "ps = offsets2parents offs"
  have la: "length (stops a) = n" and lb: "length (starts b) = n" "length (stops b) = n"
    using ra rb len by (simp_all add: rows_ok_def n_def)
  have lca: "length ca = n" and lcb: "length cb = n" and lcc: "length cc = n"
    using la lb by (simp_all add: ca_def cb_def cc_def n_def)
  have ca_nth: "ca ! i = stops a ! i - starts a ! i" if "i < n" for i
    using that la by (simp add: ca_def n_def)
  have cb_nth: "cb ! i = stops b ! i - starts b ! i" if "i < n" for i
    using that lb by (simp add: cb_def)
  have ca_nonneg: "0 \<le> ca ! i" if "i < n" for i
    using that oa ca_nth [OF that] by (simp add: list_all2_conv_all_nth n_def)
  have cb_nonneg: "0 \<le> cb ! i" if "i < n" for i
    using that ob lb cb_nth [OF that] by (simp add: list_all2_conv_all_nth)
  have cc_nth: "cc ! i = ca ! i * cb ! i" if "i < n" for i
    using that lca lcb by (simp add: cc_def)
  have cc_nonneg: "\<forall>c \<in> set cc. 0 \<le> c"
  proof
    fix c assume "c \<in> set cc"
    then obtain i where "i < n" "cc ! i = c"
      using lcc by (metis in_set_conv_nth)
    then show "0 \<le> c"
      using cc_nth ca_nonneg cb_nonneg by (metis mult_nonneg_nonneg)
  qed
  have loffs: "length offs = Suc n"
    by (simp add: offs_def lcc)
  have offs_nonneg: "0 \<le> offs ! i" if "i \<le> n" for i
    using that counts2offsets_nonneg [OF cc_nonneg, of i] by (simp add: offs_def lcc)
  have offs_mono: "offs ! i \<le> offs ! j" if "i \<le> j" "j \<le> n" for i j
    using that counts2offsets_mono [OF cc_nonneg, of i j] by (simp add: offs_def lcc)
  have offs_Suc: "offs ! Suc i = offs ! i + cc ! i" if "i < n" for i
    using that by (simp add: offs_def counts2offsets_Suc lcc)
  have total: "offs ! n = sum_list cc"
    using counts2offsets_nth [of n cc] by (simp add: offs_def lcc)
  have bound: "offs ! n < 2 ^ 63"
    using tot by (simp add: total cc_def ca_def cb_def)
  have offs_small: "offs ! i < 2 ^ 63" if "i \<le> n" for i
    using offs_mono [OF that order_refl] bound by simp
  have mw: "map wrap64 offs = offs"
  proof (rule map_idI)
    fix x assume "x \<in> set offs"
    then obtain i where "i < Suc n" "offs ! i = x"
      using loffs by (metis in_set_conv_nth)
    then show "wrap64 x = x"
      using offs_nonneg [of i] offs_small [of i] by (simp add: wrap64_nonneg)
  qed
  have cc_small: "cc ! i < 2 ^ 63" if "i < n" for i
    using that offs_Suc [OF that] offs_nonneg [of i] offs_small [of "Suc i"] by simp
  have sa_nonneg: "0 \<le> starts a ! i" if "i < n" for i
    using that ra by (simp add: rows_ok_def n_def list_all_length)
  have sb_nonneg: "0 \<le> starts b ! i" if "i < n" for i
    using that rb lb by (simp add: rows_ok_def list_all_length)
  have ta_small: "stops a ! i < 2 ^ 63" if "i < n" for i
    using that ia la by (simp add: list_all_length)
  have tb_small: "stops b ! i < 2 ^ 63" if "i < n" for i
    using that ib lb by (simp add: list_all_length)
  have last_offs: "last offs = offs ! n"
    by (simp add: offs_def last_counts2offsets lcc)
  have lps: "length ps = N"
    by (simp add: ps_def offs_def N_def length_offsets2parents_of_counts lcc)
  have owner: "ps ! k = int j"
    if "j < n" "offs ! j \<le> int k" "int k < offs ! Suc j" for k j
    using that offsets2parents_of_counts [OF cc_nonneg, of j k]
    by (simp add: ps_def offs_def lcc)
  have "\<forall>k. \<exists>j. k < N \<longrightarrow> j < n \<and> offs ! j \<le> int k \<and> int k < offs ! Suc j"
  proof
    fix k
    show "\<exists>j. k < N \<longrightarrow> j < n \<and> offs ! j \<le> int k \<and> int k < offs ! Suc j"
    proof (cases "k < N")
      case True
      then have "int k < counts2offsets cc ! length cc"
        by (simp add: N_def offs_def lcc)
      from position_has_row [OF cc_nonneg this] show ?thesis
        by (auto simp: offs_def lcc)
    next
      case False
      then show ?thesis by simp
    qed
  qed
  then obtain row where row:
    "\<And>k. k < N \<Longrightarrow> row k < n \<and> offs ! row k \<le> int k \<and> int k < offs ! Suc (row k)"
    by metis
  have ps_row: "ps ! k = int (row k)" if "k < N" for k
    using row [OF that] owner by simp
  have row_unique: "row k = j"
    if "k < N" "j < n" "offs ! j \<le> int k" "int k < offs ! Suc j" for k j
    using ps_row [OF that(1)] owner [OF that(2,3,4)] by simp
  have ps_eq: "ps = map (\<lambda>k. int (row k)) [0..<N]"
    by (rule nth_equalityI) (simp_all add: lps ps_row)
  define indexes where "indexes = map int [0..<N]"
  define local where "local = map (\<lambda>k. int k - offs ! row k) [0..<N]"
  define quot where "quot = map (\<lambda>k. (int k - offs ! row k) div cb ! row k) [0..<N]"
  define left where "left = map (\<lambda>k. starts a ! row k + (int k - offs ! row k) div cb ! row k) [0..<N]"
  define right where "right = map (\<lambda>k. starts b ! row k + (int k - offs ! row k) -
      cb ! row k * ((int k - offs ! row k) div cb ! row k)) [0..<N]"
  have take_rows: "np_take xs ps = Inr (map (\<lambda>k. xs ! row k) [0..<N])"
    if "n \<le> length xs" for xs :: "int list"
  proof -
    have "\<forall>i \<in> set ps. 0 \<le> i \<and> i < int (length xs)"
    proof
      fix i assume "i \<in> set ps"
      then obtain k where "k < N" "i = int (row k)"
        by (auto simp: ps_eq)
      then show "0 \<le> i \<and> i < int (length xs)"
        using row [of k] that by simp
    qed
    then have "np_take xs ps = Inr (map (\<lambda>i. xs ! nat i) ps)"
      by (rule np_take_in_range)
    then show ?thesis by (simp add: ps_eq comp_def)
  qed
  have t_ps: "np_take ps indexes = Inr ps"
  proof -
    have "\<forall>i \<in> set indexes. 0 \<le> i \<and> i < int (length ps)"
      by (auto simp: indexes_def lps)
    then have "np_take ps indexes = Inr (map (\<lambda>i. ps ! nat i) indexes)"
      by (rule np_take_in_range)
    also have "map (\<lambda>i. ps ! nat i) indexes = ps"
      by (rule nth_equalityI) (simp_all add: indexes_def lps)
    finally show ?thesis .
  qed
  have t_sa: "np_take (starts a) ps = Inr (map (\<lambda>k. starts a ! row k) [0..<N])"
    by (rule take_rows) (simp add: n_def)
  have t_sb: "np_take (starts b) ps = Inr (map (\<lambda>k. starts b ! row k) [0..<N])"
    by (rule take_rows) (simp add: lb)
  have t_off: "np_take offs ps = Inr (map (\<lambda>k. offs ! row k) [0..<N])"
    by (rule take_rows) (simp add: loffs)
  have t_cb: "np_take cb ps = Inr (map (\<lambda>k. cb ! row k) [0..<N])"
    by (rule take_rows) (simp add: lcb)
  have w_local: "wrap64 (int k - offs ! row k) = int k - offs ! row k"
    and w_quot: "wrap64 ((int k - offs ! row k) div cb ! row k) =
        (int k - offs ! row k) div cb ! row k"
    and w_left: "wrap64 (starts a ! row k + (int k - offs ! row k) div cb ! row k) =
        starts a ! row k + (int k - offs ! row k) div cb ! row k"
    and w_r2: "wrap64 (cb ! row k * ((int k - offs ! row k) div cb ! row k)) =
        cb ! row k * ((int k - offs ! row k) div cb ! row k)"
    and w_right: "wrap64 (wrap64 (starts b ! row k + (int k - offs ! row k)) -
          cb ! row k * ((int k - offs ! row k) div cb ! row k)) =
        starts b ! row k + (int k - offs ! row k) -
          cb ! row k * ((int k - offs ! row k) div cb ! row k)"
    if "k < N" for k
  proof -
    define i where "i = row k"
    define x where "x = int k - offs ! i"
    have i: "i < n" and lo: "offs ! i \<le> int k" and hi: "int k < offs ! Suc i"
      using row [OF that] by (simp_all add: i_def)
    have x0: "0 \<le> x" using lo by (simp add: x_def)
    have x1: "x < ca ! i * cb ! i"
      using hi offs_Suc [OF i] cc_nth [OF i] by (simp add: x_def)
    have x2: "x < 2 ^ 63"
      using x1 cc_small [OF i] cc_nth [OF i] by simp
    note q = quotient_bounds [OF x0 x1 ca_nonneg [OF i] cb_nonneg [OF i]]
    have l1: "starts a ! i + x div cb ! i < 2 ^ 63"
      using q(3) ca_nth [OF i] ta_small [OF i] by simp
    have r1: "starts b ! i + x - cb ! i * (x div cb ! i) < 2 ^ 63"
      using q(6) cb_nth [OF i] tb_small [OF i] by simp
    have r0: "0 \<le> starts b ! i + x - cb ! i * (x div cb ! i)"
      using q(5) sb_nonneg [OF i] by simp
    have "wrap64 x = x"
      using x0 x2 by (rule wrap64_nonneg)
    then show "wrap64 (int k - offs ! row k) = int k - offs ! row k"
      by (simp add: x_def i_def)
    have "wrap64 (x div cb ! i) = x div cb ! i"
      using q(2) q(3) ca_nth [OF i] ta_small [OF i] sa_nonneg [OF i]
      by (intro wrap64_nonneg) simp_all
    then show "wrap64 ((int k - offs ! row k) div cb ! row k) =
        (int k - offs ! row k) div cb ! row k"
      by (simp add: x_def i_def)
    have "wrap64 (starts a ! i + x div cb ! i) = starts a ! i + x div cb ! i"
      using q(2) sa_nonneg [OF i] l1 by (intro wrap64_nonneg) simp_all
    then show "wrap64 (starts a ! row k + (int k - offs ! row k) div cb ! row k) =
        starts a ! row k + (int k - offs ! row k) div cb ! row k"
      by (simp add: x_def i_def)
    have "wrap64 (cb ! i * (x div cb ! i)) = cb ! i * (x div cb ! i)"
      using q(4) q(5) x2 by (intro wrap64_nonneg) simp_all
    then show "wrap64 (cb ! row k * ((int k - offs ! row k) div cb ! row k)) =
        cb ! row k * ((int k - offs ! row k) div cb ! row k)"
      by (simp add: x_def i_def)
    have "wrap64 (wrap64 (starts b ! i + x) - cb ! i * (x div cb ! i)) =
        wrap64 (starts b ! i + x - cb ! i * (x div cb ! i))"
      by (rule wrap64_diff_left)
    also have "\<dots> = starts b ! i + x - cb ! i * (x div cb ! i)"
      using r0 r1 by (rule wrap64_nonneg)
    finally show "wrap64 (wrap64 (starts b ! row k + (int k - offs ! row k)) -
          cb ! row k * ((int k - offs ! row k) div cb ! row k)) =
        starts b ! row k + (int k - offs ! row k) -
          cb ! row k * ((int k - offs ! row k) div cb ! row k)"
      by (simp add: x_def i_def)
  qed
  have b_local: "np_binop (\<lambda>p q. wrap64 (p - q)) indexes (map (\<lambda>k. offs ! row k) [0..<N]) =
      Inr local"
    unfolding indexes_def local_def np_binop_def map2_map_same
    by (simp add: w_local cong: map_cong)
  have b_quot: "np_binop (\<lambda>p q. wrap64 (p div q)) local (map (\<lambda>k. cb ! row k) [0..<N]) =
      Inr quot"
    unfolding local_def quot_def np_binop_def map2_map_same
    by (simp add: w_quot cong: map_cong)
  have b_lv: "np_binop (\<lambda>p q. wrap64 (p + q)) (map (\<lambda>k. starts a ! row k) [0..<N]) quot =
      Inr left"
    unfolding left_def quot_def np_binop_def map2_map_same
    by (simp add: w_left cong: map_cong)
  have b_r1: "np_binop (\<lambda>p q. wrap64 (p + q)) (map (\<lambda>k. starts b ! row k) [0..<N]) local =
      Inr (map (\<lambda>k. wrap64 (starts b ! row k + (int k - offs ! row k))) [0..<N])"
    unfolding local_def np_binop_def map2_map_same by simp
  have b_r2: "np_binop (\<lambda>p q. wrap64 (p * q)) (map (\<lambda>k. cb ! row k) [0..<N]) quot =
      Inr (map (\<lambda>k. cb ! row k * ((int k - offs ! row k) div cb ! row k)) [0..<N])"
    unfolding quot_def np_binop_def map2_map_same
    by (simp add: w_r2 cong: map_cong)
  have b_rv: "np_binop (\<lambda>p q. wrap64 (p - q))
      (map (\<lambda>k. wrap64 (starts b ! row k + (int k - offs ! row k))) [0..<N])
      (map (\<lambda>k. cb ! row k * ((int k - offs ! row k) div cb ! row k)) [0..<N]) = Inr right"
    unfolding right_def np_binop_def map2_map_same
    by (simp add: w_right cong: map_cong)
  have put: "np_put (replicate N fill) indexes vs = Inr vs"
    if "length vs = N" for vs
  proof -
    have "np_put (replicate N fill) (map int [0..<length (replicate N fill)]) vs = Inr vs"
      using that by (intro np_put_all_positions) simp
    then show ?thesis by (simp add: indexes_def)
  qed
  have p_left: "np_put (replicate N fill) indexes left = Inr left"
    by (rule put) (simp add: left_def)
  have p_right: "np_put (replicate N fill) indexes right = Inr right"
    by (rule put) (simp add: right_def)
  define out where "out = \<lparr>starts = butlast offs, stops = tl offs, content = zip left right,
      offsets_cache = Some offs, counts_cache = None, parents_cache = Some ps,
      isvalid = False\<rparr>"
  have offs_set: "\<not> (\<exists>x \<in> set offs. x < 0)"
  proof
    assume "\<exists>x \<in> set offs. x < 0"
    then obtain i where "i < length offs" "offs ! i < 0"
      by (metis in_set_conv_nth)
    then show False using offs_nonneg [of i] loffs by simp
  qed
  then have offs_parts: "\<not> (\<exists>x \<in> set (butlast offs). x < 0)" "\<not> (\<exists>x \<in> set (tl offs). x < 0)"
    by (cases offs; auto dest: in_set_butlastD)+
  have fo: "bind_err (fromoffsets offs (zip left right))
      (\<lambda>r. Inr (r\<lparr>parents_cache := Some ps\<rparr>)) = Inr out"
    using offs_set offs_parts
    by (simp add: fromoffsets_def init_def starts_setter_def stops_setter_def
        content_setter_def blank_def out_def)
  obtain a1 where va: "valid a = Inr a1"
    and a1: "starts a1 = starts a" "stops a1 = stops a" "rows_ok a1"
    using valid_rows_ok [OF ra] by blast
  obtain a2 where cna: "counts a1 = Inr (map2 (\<lambda>q p. q - p) (stops a1) (starts a1), a2)"
    and a2: "starts a2 = starts a1"
    using counts_rows_ok [OF a1(3)] by blast
  obtain b1 where vb: "valid b = Inr b1"
    and b1: "starts b1 = starts b" "stops b1 = stops b" "rows_ok b1"
    using valid_rows_ok [OF rb] by blast
  obtain b2 where cnb: "counts b1 = Inr (map2 (\<lambda>q p. q - p) (stops b1) (starts b1), b2)"
    and b2: "starts b2 = starts b1"
    using counts_rows_ok [OF b1(3)] by blast
  have cna': "counts a1 = Inr (ca, a2)" using cna a1 by (simp add: ca_def)
  have cnb': "counts b1 = Inr (cb, b2)" using cnb b1 by (simp add: cb_def)
  have "map2 (\<lambda>p q. wrap64 (p * q)) ca cb = cc"
  proof (rule nth_equalityI)
    show "length (map2 (\<lambda>p q. wrap64 (p * q)) ca cb) = length cc"
      by (simp add: lca lcb lcc)
  next
    fix i assume "i < length (map2 (\<lambda>p q. wrap64 (p * q)) ca cb)"
    then have i: "i < n" by (simp add: lca lcb)
    have "wrap64 (ca ! i * cb ! i) = ca ! i * cb ! i"
      using ca_nonneg [OF i] cb_nonneg [OF i] cc_small [OF i] cc_nth [OF i]
      by (intro wrap64_nonneg) simp_all
    then show "map2 (\<lambda>p q. wrap64 (p * q)) ca cb ! i = cc ! i"
      using i by (simp add: lca lcb cc_nth)
  qed
  then have b_cc: "np_binop (\<lambda>p q. wrap64 (p * q)) ca cb = Inr cc"
    by (simp add: np_binop_def lca lcb)
  have nl: "nat (last offs) = N"
    using last_offs by (simp add: N_def)
  have res: "argcross fill a b = Inr out"
    unfolding argcross_def va vb bind_err.simps
    using len fo
    by (simp add: a1 b1 cna' cnb' b_cc a2 b2 Let_def offs_def [symmetric] mw
        ps_def [symmetric] nl indexes_def [symmetric]
        t_ps t_sa t_sb t_off t_cb b_local b_quot b_lv p_left b_r1 b_r2 b_rv p_right)
  have lout: "length (starts out) \<le> length (stops out)"
    by (simp add: out_def)
  have it: "iter_jagged out = Inr (rows_of out)"
    by (rule iter_jagged_rows_of [OF lout])
  have ll: "length left = N" "length right = N"
    by (simp_all add: left_def right_def)
  have lc: "length (zip left right) = N"
    by (simp add: ll)
  have rows: "rows_of out =
      map (\<lambda>i. List.product [starts a ! i..stops a ! i - 1] [starts b ! i..stops b ! i - 1])
        [0..<n]"
  proof (rule nth_equalityI)
    show "length (rows_of out) =
        length (map (\<lambda>i. List.product [starts a ! i..stops a ! i - 1]
                                      [starts b ! i..stops b ! i - 1]) [0..<n])"
      by (simp add: rows_of_def out_def loffs)
  next
    fix i assume "i < length (rows_of out)"
    then have i: "i < n" by (simp add: rows_of_def out_def loffs)
    have lo0: "0 \<le> offs ! i" using i by (intro offs_nonneg) simp
    have hi0: "0 \<le> offs ! Suc i" using i by (intro offs_nonneg) simp
    have hiN: "offs ! Suc i \<le> int N"
      using offs_mono [of "Suc i" n] i offs_nonneg [of n] by (simp add: N_def)
    have step: "offs ! Suc i = offs ! i + ca ! i * cb ! i"
      using i by (simp add: offs_Suc cc_nth)
    have cnn: "0 \<le> ca ! i * cb ! i"
      using ca_nonneg [OF i] cb_nonneg [OF i] by simp
    have cnt: "nat (offs ! Suc i) - nat (offs ! i) = nat (ca ! i * cb ! i)"
      using step lo0 cnn by simp
    have bounds: "slice_bound (int N) (offs ! i) = nat (offs ! i)"
        "slice_bound (int N) (offs ! Suc i) = nat (offs ! Suc i)"
      using lo0 hi0 hiN step cnn by (simp_all add: slice_bound_def)
    have sl: "py_slice (zip left right) (offs ! i) (offs ! Suc i) =
        take (nat (ca ! i * cb ! i)) (drop (nat (offs ! i)) (zip left right))"
      unfolding py_slice_def lc Let_def bounds cnt by (rule refl)
    have items: "take (nat (ca ! i * cb ! i)) (drop (nat (offs ! i)) (zip left right)) =
        map (\<lambda>j. (starts a ! i + int j div cb ! i,
                    starts b ! i + int j - cb ! i * (int j div cb ! i)))
          [0..<nat (ca ! i * cb ! i)]"
    proof (rule nth_equalityI)
      have "nat (offs ! i) + nat (ca ! i * cb ! i) \<le> N"
        using hiN step lo0 cnn by linarith
      then show "length (take (nat (ca ! i * cb ! i)) (drop (nat (offs ! i)) (zip left right))) =
          length (map (\<lambda>j. (starts a ! i + int j div cb ! i,
                    starts b ! i + int j - cb ! i * (int j div cb ! i)))
            [0..<nat (ca ! i * cb ! i)])"
        by (simp add: ll)
    next
      fix j
      assume "j < length (take (nat (ca ! i * cb ! i)) (drop (nat (offs ! i)) (zip left right)))"
      then have j: "j < nat (ca ! i * cb ! i)" by simp
      define k where "k = nat (offs ! i) + j"
      have kN: "k < N" using j hiN step lo0 cnn by (simp add: k_def)
      have klo: "offs ! i \<le> int k" using lo0 by (simp add: k_def)
      have khi: "int k < offs ! Suc i" using j lo0 step by (simp add: k_def)
      have rk: "row k = i" by (rule row_unique [OF kN i klo khi])
      have kj: "int k - offs ! i = int j" using lo0 by (simp add: k_def)
      have "take (nat (ca ! i * cb ! i)) (drop (nat (offs ! i)) (zip left right)) ! j =
          zip left right ! k"
        using j kN by (simp add: k_def ll)
      also have "\<dots> = (left ! k, right ! k)"
        using kN by (simp add: left_def right_def)
      also have "\<dots> = (starts a ! i + int j div cb ! i,
                    starts b ! i + int j - cb ! i * (int j div cb ! i))"
        using kN by (simp add: left_def right_def rk kj)
      finally show "take (nat (ca ! i * cb ! i)) (drop (nat (offs ! i)) (zip left right)) ! j =
          map (\<lambda>j. (starts a ! i + int j div cb ! i,
                    starts b ! i + int j - cb ! i * (int j div cb ! i)))
            [0..<nat (ca ! i * cb ! i)] ! j"
        using j by simp
    qed
    have ends: "starts a ! i + ca ! i - 1 = stops a ! i - 1"
        "starts b ! i + cb ! i - 1 = stops b ! i - 1"
      using i by (simp_all add: ca_nth cb_nth)
    have "rows_of out ! i = py_slice (zip left right) (offs ! i) (offs ! Suc i)"
      using i by (simp add: rows_of_def out_def loffs nth_butlast nth_tl)
    also have "\<dots> = List.product [starts a ! i..starts a ! i + ca ! i - 1]
                                    [starts b ! i..starts b ! i + cb ! i - 1]"
      unfolding sl items
      by (rule pairs_of_row [OF ca_nonneg [OF i] cb_nonneg [OF i]])
    finally show "rows_of out ! i =
        map (\<lambda>i. List.product [starts a ! i..stops a ! i - 1] [starts b ! i..stops b ! i - 1])
          [0..<n] ! i"
      using i by (simp add: ends)
  qed
  have "starts out = butlast offs" "stops out = tl offs"
    by (simp_all add: out_def)
  then show ?thesis
    using res it rows
    unfolding offs_def cc_def ca_def cb_def n_def by auto
qed

text \<open>
  C9. The claim does not hold for every two jagged arrays of equal length. The
  counts are \<^verbatim>\<open>stops - starts\<close> and their products, the offsets and the
  positions are 64-bit integers, so three kinds of views break it:

    \<^item> one row of \<open>2\<^sup>3\<^sup>2\<close> positions crossed with itself has \<open>2\<^sup>6\<^sup>4\<close> pairs,
      a count that wraps to \<open>0\<close>: the result is one empty row;
    \<^item> two rows that start after their stop (counts \<open>-1\<close> and \<open>-1\<close>) have no
      position, and the result has the one pair \<open>(2, 3)\<close>; with one negative
      count only, the negative offset raises a value error;
    \<^item> a view with fewer starts than stops, crossed with itself, has equal
      lengths and raises a value error from the subtraction of the counts.
\<close>

theorem argcross_outside_data_model:
  "bind_err (counts \<lparr>starts = [0], stops = [4294967296], content = ([] :: int list),
       offsets_cache = None, counts_cache = None, parents_cache = None, isvalid = False\<rparr>)
     (Inr \<circ> fst) = Inr [4294967296] \<and>
   bind_err (argcross 0
       \<lparr>starts = [0], stops = [4294967296], content = ([] :: int list),
         offsets_cache = None, counts_cache = None, parents_cache = None, isvalid = False\<rparr>
       \<lparr>starts = [0], stops = [4294967296], content = ([] :: int list),
         offsets_cache = None, counts_cache = None, parents_cache = None, isvalid = False\<rparr>)
     iter_jagged = Inr [[]] \<and>
   iter_jagged \<lparr>starts = [2], stops = [1], content = [10, 20, 30, 40 :: int],
       offsets_cache = None, counts_cache = None, parents_cache = None, isvalid = False\<rparr>
     = Inr [[]] \<and>
   iter_jagged \<lparr>starts = [3], stops = [2], content = [10, 20, 30, 40 :: int],
       offsets_cache = None, counts_cache = None, parents_cache = None, isvalid = False\<rparr>
     = Inr [[]] \<and>
   bind_err (argcross 0
       \<lparr>starts = [2], stops = [1], content = [10, 20, 30, 40 :: int],
         offsets_cache = None, counts_cache = None, parents_cache = None, isvalid = False\<rparr>
       \<lparr>starts = [3], stops = [2], content = [10, 20, 30, 40 :: int],
         offsets_cache = None, counts_cache = None, parents_cache = None, isvalid = False\<rparr>)
     iter_jagged = Inr [[(2, 3)]] \<and>
   argcross 0
       \<lparr>starts = [2], stops = [1], content = [10, 20, 30, 40 :: int],
         offsets_cache = None, counts_cache = None, parents_cache = None, isvalid = False\<rparr>
       \<lparr>starts = [0], stops = [2], content = [10, 20, 30, 40 :: int],
         offsets_cache = None, counts_cache = None, parents_cache = None, isvalid = False\<rparr>
     = Inl ValueError \<and>
   iter_jagged \<lparr>starts = [0, 1], stops = [1, 3, 4], content = [10, 20, 30, 40 :: int],
       offsets_cache = None, counts_cache = None, parents_cache = None, isvalid = False\<rparr>
     = Inr [[10], [20, 30]] \<and>
   argcross 0
       \<lparr>starts = [0, 1], stops = [1, 3, 4], content = [10, 20, 30, 40 :: int],
         offsets_cache = None, counts_cache = None, parents_cache = None, isvalid = False\<rparr>
       \<lparr>starts = [0, 1], stops = [1, 3, 4], content = [10, 20, 30, 40 :: int],
         offsets_cache = None, counts_cache = None, parents_cache = None, isvalid = False\<rparr>
     = Inl ValueError"
  by code_simp

text \<open>
  C9, amended. Two jagged arrays with different numbers of rows raise a value
  error, whatever their layout. For two jagged arrays in the data model
  (starts and stops of one length, no negative item, no start after its stop)
  with the same number of rows, whose stops and whose total number of pairs
  are below \<open>2\<^sup>6\<^sup>3\<close>, \<^verbatim>\<open>argcross\<close> returns a jagged array whose starts and stops
  are the two ends of the offsets of \<^verbatim>\<open>counts_self * counts_other\<close> (so it is
  contiguous and row \<open>i\<close> has that product as its length) and whose row \<open>i\<close>
  lists every pair of a position of row \<open>i\<close> of \<^verbatim>\<open>self\<close> and a position of
  row \<open>i\<close> of \<^verbatim>\<open>other\<close>, the left position varying slowest.
\<close>

theorem argcross_pairs_row_major:
  "(length (starts a) \<noteq> length (starts b) \<longrightarrow> argcross fill a b = Inl ValueError) \<and>
         (rows_ok a \<and> rows_ok b \<and> length (starts a) = length (starts b) \<and>
          list_all2 (\<lambda>s t. s \<le> t) (starts a) (stops a) \<and>
          list_all2 (\<lambda>s t. s \<le> t) (starts b) (stops b) \<and>
          list_all (\<lambda>t. t < 2 ^ 63) (stops a) \<and> list_all (\<lambda>t. t < 2 ^ 63) (stops b) \<and>
          sum_list (map2 (\<lambda>p q. p * q) (map2 (\<lambda>q p. q - p) (stops a) (starts a))
                                      (map2 (\<lambda>q p. q - p) (stops b) (starts b))) < 2 ^ 63 \<longrightarrow>
          (\<exists>out. argcross fill a b = Inr out \<and>
             starts out = butlast (counts2offsets
               (map2 (\<lambda>p q. p * q) (map2 (\<lambda>q p. q - p) (stops a) (starts a))
                                      (map2 (\<lambda>q p. q - p) (stops b) (starts b)))) \<and>
             stops out = tl (counts2offsets
               (map2 (\<lambda>p q. p * q) (map2 (\<lambda>q p. q - p) (stops a) (starts a))
                                      (map2 (\<lambda>q p. q - p) (stops b) (starts b)))) \<and>
             iter_jagged out =
               Inr (map (\<lambda>i. List.product [starts a ! i..stops a ! i - 1]
                                            [starts b ! i..stops b ! i - 1])
                      [0..<length (starts a)])))"
proof (intro conjI impI)
  assume ne: "length (starts a) \<noteq> length (starts b)"
  show "argcross fill a b = Inl ValueError"
  proof (cases "valid a")
    case (Inl e)
    then have "e = ValueError"
      by (auto simp: valid_def validstartsstops_def split: if_splits)
    then show ?thesis using Inl by (simp add: argcross_def)
  next
    case a1: (Inr a1)
    then have sa: "starts a1 = starts a"
      by (auto simp: valid_def validstartsstops_def split: if_splits)
    show ?thesis
    proof (cases "valid b")
      case (Inl e)
      then have "e = ValueError"
        by (auto simp: valid_def validstartsstops_def split: if_splits)
      then show ?thesis using Inl a1 by (simp add: argcross_def)
    next
      case b1: (Inr b1)
      then have sb: "starts b1 = starts b"
        by (auto simp: valid_def validstartsstops_def split: if_splits)
      show ?thesis
        using ne by (simp add: argcross_def a1 b1 sa sb)
    qed
  qed
next
  assume h: "rows_ok a \<and> rows_ok b \<and> length (starts a) = length (starts b) \<and>
          list_all2 (\<lambda>s t. s \<le> t) (starts a) (stops a) \<and>
          list_all2 (\<lambda>s t. s \<le> t) (starts b) (stops b) \<and>
          list_all (\<lambda>t. t < 2 ^ 63) (stops a) \<and> list_all (\<lambda>t. t < 2 ^ 63) (stops b) \<and>
          sum_list (map2 (\<lambda>p q. p * q) (map2 (\<lambda>q p. q - p) (stops a) (starts a))
                                      (map2 (\<lambda>q p. q - p) (stops b) (starts b))) < 2 ^ 63"
  show "(\<exists>out. argcross fill a b = Inr out \<and>
             starts out = butlast (counts2offsets
               (map2 (\<lambda>p q. p * q) (map2 (\<lambda>q p. q - p) (stops a) (starts a))
                                      (map2 (\<lambda>q p. q - p) (stops b) (starts b)))) \<and>
             stops out = tl (counts2offsets
               (map2 (\<lambda>p q. p * q) (map2 (\<lambda>q p. q - p) (stops a) (starts a))
                                      (map2 (\<lambda>q p. q - p) (stops b) (starts b)))) \<and>
             iter_jagged out =
               Inr (map (\<lambda>i. List.product [starts a ! i..stops a ! i - 1]
                                            [starts b ! i..stops b ! i - 1])
                      [0..<length (starts a)]))"
    using h by (intro argcross_rows) simp_all
qed

theorem argcross_pairs_row_major_witness:
  "rows_ok \<lparr>starts = [0, 2], stops = [2, 3], content = [10, 20, 30 :: int],
         offsets_cache = None, counts_cache = None, parents_cache = None, isvalid = False\<rparr> \<and>
   rows_ok \<lparr>starts = [0, 3], stops = [3, 4], content = [7, 8, 9, 6 :: int],
         offsets_cache = None, counts_cache = None, parents_cache = None, isvalid = False\<rparr> \<and>
   list_all2 (\<lambda>s t. s \<le> t) [0, 2 :: int] [2, 3] \<and>
   list_all2 (\<lambda>s t. s \<le> t) [0, 3 :: int] [3, 4] \<and>
   list_all (\<lambda>t. t < 2 ^ 63) [2, 3 :: int] \<and> list_all (\<lambda>t. t < 2 ^ 63) [3, 4 :: int] \<and>
   sum_list (map2 (\<lambda>p q. p * q) (map2 (\<lambda>q p. q - p) [2, 3] [0, 2])
      (map2 (\<lambda>q p. q - p) [3, 4] [0, 3 :: int])) < 2 ^ 63 \<and>
   (\<exists>out. argcross 0
       \<lparr>starts = [0, 2], stops = [2, 3], content = [10, 20, 30 :: int],
         offsets_cache = None, counts_cache = None, parents_cache = None, isvalid = False\<rparr>
       \<lparr>starts = [0, 3], stops = [3, 4], content = [7, 8, 9, 6 :: int],
         offsets_cache = None, counts_cache = None, parents_cache = None, isvalid = False\<rparr>
       = Inr out \<and>
       starts out = [0, 6] \<and> stops out = [6, 7] \<and>
       iter_jagged out =
         Inr [[(0, 0), (0, 1), (0, 2), (1, 0), (1, 1), (1, 2)], [(2, 3)]]) \<and>
   argcross 0
       \<lparr>starts = [0, 2], stops = [2, 3], content = [10, 20, 30 :: int],
         offsets_cache = None, counts_cache = None, parents_cache = None, isvalid = False\<rparr>
       \<lparr>starts = [0], stops = [1], content = [5 :: int],
         offsets_cache = None, counts_cache = None, parents_cache = None, isvalid = False\<rparr>
     = Inl ValueError"
proof -
  let ?a = "\<lparr>starts = [0, 2], stops = [2, 3], content = [10, 20, 30 :: int],
         offsets_cache = None, counts_cache = None, parents_cache = None, isvalid = False\<rparr>"
  let ?b = "\<lparr>starts = [0, 3], stops = [3, 4], content = [7, 8, 9, 6 :: int],
         offsets_cache = None, counts_cache = None, parents_cache = None, isvalid = False\<rparr>"
  let ?c = "\<lparr>starts = [0], stops = [1], content = [5 :: int],
         offsets_cache = None, counts_cache = None, parents_cache = None, isvalid = False\<rparr>"
  have ra: "rows_ok ?a" and rb: "rows_ok ?b"
    by (simp_all add: rows_ok_def)
  have oa: "list_all2 (\<lambda>s t. s \<le> t) [0, 2 :: int] [2, 3]"
    and ob: "list_all2 (\<lambda>s t. s \<le> t) [0, 3 :: int] [3, 4]"
    and ia: "list_all (\<lambda>t. t < 2 ^ 63) [2, 3 :: int]"
    and ib: "list_all (\<lambda>t. t < 2 ^ 63) [3, 4 :: int]"
    by simp_all
  have cc: "map2 (\<lambda>p q. p * q) (map2 (\<lambda>q p. q - p) [2, 3] [0, 2])
      (map2 (\<lambda>q p. q - p) [3, 4] [0, 3 :: int]) = [6, 1]"
    by simp
  have offs: "counts2offsets [6, 1] = [0, 6, 7]"
    by (simp add: counts2offsets_def)
  have pairs: "map (\<lambda>i. List.product [[0, 2] ! i..[2, 3] ! i - 1] [[0, 3] ! i..[3, 4 :: int] ! i - 1])
      [0..<length [0, 2 :: int]] = [[(0, 0), (0, 1), (0, 2), (1, 0), (1, 1), (1, 2)], [(2, 3)]]"
    by code_simp
  have ok: "\<exists>out. argcross 0 ?a ?b = Inr out \<and> starts out = [0, 6] \<and> stops out = [6, 7] \<and>
       iter_jagged out = Inr [[(0, 0), (0, 1), (0, 2), (1, 0), (1, 1), (1, 2)], [(2, 3)]]"
    using argcross_pairs_row_major [of ?a ?b 0] ra rb oa ob ia ib
    unfolding JaggedArray.simps cc offs pairs by simp
  have bad: "argcross 0 ?a ?c = Inl ValueError"
    using argcross_pairs_row_major [of ?a ?c 0] by simp
  show ?thesis using ra rb oa ob ia ib ok bad unfolding cc by simp
qed

section \<open>Empty rows of a reduction that returns\<close>

lemma put_mask_at_true:
  assumes "length m = length xs" "i < length xs" "m ! i"
    "length vs = length (filter id m)" "\<forall>v \<in> set vs. v = c"
  shows "put_mask xs m vs ! i = c"
  using assms
proof (induction xs m vs arbitrary: i rule: put_mask.induct)
  case (1 x xs m ms vs)
  show ?case
  proof (cases i)
    case 0
    then show ?thesis using "1.prems" by (cases vs) auto
  next
    case (Suc i0)
    show ?thesis
    proof (cases m)
      case True
      then obtain v vs' where vs: "vs = v # vs'"
        using "1.prems"(4) by (cases vs) auto
      have "put_mask xs ms vs' ! i0 = c"
        using "1.prems" Suc True vs by (intro "1.IH"(2)) auto
      then show ?thesis using Suc True vs by simp
    next
      case False
      have "put_mask xs ms vs ! i0 = c"
        using "1.prems" Suc False by (intro "1.IH"(3)) auto
      then show ?thesis using Suc False by simp
    qed
  qed
qed simp_all

lemma put_mask_at_false:
  assumes "length m = length xs" "i < length xs" "\<not> m ! i"
  shows "put_mask xs m vs ! i = xs ! i"
  using assms
proof (induction xs m vs arbitrary: i rule: put_mask.induct)
  case (1 x xs m ms vs)
  show ?case
  proof (cases i)
    case 0
    then show ?thesis using "1.prems" by simp
  next
    case (Suc i0)
    show ?thesis
    proof (cases m)
      case True
      show ?thesis
      proof (cases vs)
        case Nil
        have "put_mask xs ms [] ! i0 = xs ! i0"
          using "1.prems" Suc True Nil by (intro "1.IH"(1)) auto
        then show ?thesis using Suc True Nil by simp
      next
        case (Cons v vs')
        have "put_mask xs ms vs' ! i0 = xs ! i0"
          using "1.prems" Suc True Cons by (intro "1.IH"(2)) auto
        then show ?thesis using Suc True Cons by simp
      qed
    next
      case False
      have "put_mask xs ms vs ! i0 = xs ! i0"
        using "1.prems" Suc False by (intro "1.IH"(3)) auto
      then show ?thesis using Suc False by simp
    qed
  qed
qed simp_all

lemma np_put_mask_one_value:
  assumes "np_put_mask xs m [c] = Inr out" "i < length xs" "m ! i"
  shows "out ! i = c"
proof -
  have len: "length m = length xs"
    using assms(1) by (auto simp: np_put_mask_def Let_def split: if_splits)
  have "out = put_mask xs m (replicate (length (filter id m)) c)"
    using assms(1) len
    by (cases "length (filter id m) = 1") (auto simp: np_put_mask_def Let_def split: if_splits)
  then show ?thesis
    using put_mask_at_true [OF len assms(2,3), of "replicate (length (filter id m)) c" c]
    by simp
qed

lemma np_put_mask_keeps:
  assumes "np_put_mask xs m vs = Inr out" "i < length xs" "\<not> m ! i"
  shows "out ! i = xs ! i"
proof -
  have len: "length m = length xs"
    using assms(1) by (auto simp: np_put_mask_def Let_def split: if_splits)
  show ?thesis
    using assms(1) put_mask_at_false [OF len assms(2,3)]
    by (auto simp: np_put_mask_def Let_def split: if_splits)
qed

lemma np_item_last:
  assumes "xs \<noteq> []"
  shows "np_item xs (- 1) = Inr (last xs)"
proof -
  have "nat (int (length xs) - 1) = length xs - 1" by simp
  then show ?thesis
    using assms by (simp add: np_item_def Let_def last_conv_nth)
qed

lemma reduce_rows_empty_row:
  assumes "reduce_rows g ident c stp j sts = Inr out" "i < length sts"
    "np_item stp (int (j + i)) = Inr (sts ! i)"
  shows "out ! i = ident"
  using assms
proof (induction sts arbitrary: j i out)
  case Nil
  then show ?case by simp
next
  case (Cons s sts)
  obtain stop where st: "np_item stp (int j) = Inr stop"
    using Cons.prems(1) by (cases "np_item stp (int j)") simp_all
  obtain x where x: "(if s \<noteq> stop then g ident (py_slice c s stop) else Inr ident) = Inr x"
    using Cons.prems(1) st
    by (cases "if s \<noteq> stop then g ident (py_slice c s stop) else Inr ident") simp_all
  obtain xs where xs: "reduce_rows g ident c stp (Suc j) sts = Inr xs"
    using Cons.prems(1) st x
    by (cases "reduce_rows g ident c stp (Suc j) sts") simp_all
  have out: "out = x # xs"
    using Cons.prems(1) st x xs by simp
  show ?case
  proof (cases i)
    case 0
    then have "s = stop" using Cons.prems(3) st by simp
    then show ?thesis using x out 0 by simp
  next
    case (Suc i0)
    have "xs ! i0 = ident"
      using Cons.prems(2,3) Suc by (intro Cons.IH [OF xs]) simp_all
    then show ?thesis using out Suc by simp
  qed
qed

lemma bind_err_InrD: "bind_err m f = Inr y \<Longrightarrow> \<exists>x. m = Inr x \<and> f x = Inr y"
  by (cases m) auto

lemma canuseoffset_result:
  "canuseoffset a = Inr (fast, a1) \<Longrightarrow>
   starts a1 = starts a \<and> stops a1 = stops a \<and> content a1 = content a \<and>
   offsets_cache a1 = offsets_cache a \<and> (fast \<longleftrightarrow> tl (starts a) = butlast (stops a))"
  by (auto simp: canuseoffset_def valid_def validstartsstops_def offsetsaliased_def
      array_equal_def split: if_splits)

lemma offsets_coherent:
  assumes o: "offsets a = Inr (offs, a2)"
    and len: "length (starts a) = length (stops a)" and ne: "starts a \<noteq> []"
    and coh: "case offsets_cache a of None \<Rightarrow> True
              | Some v \<Rightarrow> starts a = butlast v \<and> stops a = tl v"
  shows "butlast offs = starts a \<and> tl offs = stops a"
proof (cases "offsets_cache a")
  case (Some v)
  then show ?thesis using o coh by (simp add: offsets_def)
next
  case None
  obtain a0 where v: "valid a = Inr a0"
    using o None by (cases "valid a") (simp_all add: offsets_def)
  note k = valid_keeps_starts [OF v]
  have nes: "stops a \<noteq> []" using len ne by auto
  have item: "np_item (stops a0) (- 1) = Inr (last (stops a))"
    using np_item_last [OF nes] k by simp
  have eq: "tl (starts a) = butlast (stops a)"
    using o None v k
    by (auto simp: offsets_def offsetsaliased_def array_equal_def split: if_splits)
  have offs: "offs = starts a @ [last (stops a)]"
    using o None v k item eq
    by (auto simp: offsets_def offsetsaliased_def array_equal_def Let_def split: if_splits)
  have "tl offs = tl (starts a) @ [last (stops a)]"
    using ne by (simp add: offs)
  also have "\<dots> = stops a"
    using nes by (simp add: eq)
  finally show ?thesis by (simp add: offs)
qed

lemma length_reduceat: "reduceat f xs idx = Inr r \<Longrightarrow> length r = length idx"
  by (auto simp: reduceat_def split: if_splits)

lemma reduce_offset_empty_row:
  assumes r: "reduce_offset f ident a = Inr out"
    and len: "length (starts a) = length (stops a)"
    and coh: "case offsets_cache a of None \<Rightarrow> True
              | Some v \<Rightarrow> starts a = butlast v \<and> stops a = tl v"
    and i: "i < length (starts a)" and e: "starts a ! i = stops a ! i"
  shows "out ! i = ident"
proof -
  have ne: "starts a \<noteq> []" using i by auto
  from r obtain s0 t offs a1 red where
    o: "offsets a = Inr (offs, a1)"
    and red: "reduceat f (py_slice (content a1) s0 t) (butlast offs) = Inr red"
    and pm: "np_put_mask red (map2 (\<lambda>p q. p = q) (tl offs) (butlast offs)) [ident] = Inr out"
    by (auto simp: reduce_offset_def dest!: bind_err_InrD)
  note c = offsets_coherent [OF o len ne coh]
  have lred: "length red = length (starts a)"
    using length_reduceat [OF red] c by simp
  have mi: "map2 (\<lambda>p q. p = q) (tl offs) (butlast offs) ! i"
    using c i len e by simp
  show ?thesis
    using np_put_mask_one_value [OF pm _ mi] i lred by simp
qed

text \<open>
  Whenever a reduction returns, the item of each empty row is the identity of
  the operator, on the contiguous path and on the general one. The view has
  starts and stops of one length and an offsets cache that, when present, is the
  array they were sliced from.
\<close>

lemma empty_row_identity_when_returned:
  assumes len: "length (starts a) = length (stops a)"
    and coh: "case offsets_cache a of None \<Rightarrow> True
              | Some v \<Rightarrow> starts a = butlast v \<and> stops a = tl v"
    and i: "i < length (starts a)" and e: "starts a ! i = stops a ! i"
  shows "sum_jagged dt a = Inr out \<Longrightarrow> out ! i = np_zero dt"
    and "prod_jagged dt a = Inr out \<Longrightarrow> out ! i = np_one dt"
    and "min_jagged dt a = Inr out \<Longrightarrow>
           out ! i = (if is_floating dt then np_inf dt else iinfo_max dt)"
    and "max_jagged dt a = Inr out \<Longrightarrow>
           out ! i = (if is_floating dt then np_neginf dt else iinfo_min dt)"
proof -
  have fast: "reduce_offset f ident a1 = Inr out \<Longrightarrow> out ! i = ident"
    if "canuseoffset a = Inr (fl, a1)" for f ident a1 fl and out :: "'a list"
    using canuseoffset_result [OF that] len coh i e
    by (intro reduce_offset_empty_row [of f ident a1 out i]) (auto split: option.splits)
  have item: "np_item (stops a) (int (0 + i)) = Inr (starts a ! i)"
    using i len e by (simp add: np_item_def)
  have general: "reduce_rows g ident (content a1) (stops a1) 0 (starts a1) = Inr out \<Longrightarrow>
      out ! i = ident"
    if "canuseoffset a = Inr (fl, a1)" for g ident a1 fl and out :: "'a list"
    using canuseoffset_result [OF that] i item
    by (intro reduce_rows_empty_row [of g ident "content a1" "stops a1" 0 "starts a1" out i])
       simp_all
  show "sum_jagged dt a = Inr out \<Longrightarrow> out ! i = np_zero dt"
  proof -
    assume s: "sum_jagged dt a = Inr out"
    then obtain fl a1 where cu: "canuseoffset a = Inr (fl, a1)"
      by (auto simp: sum_jagged_def dest!: bind_err_InrD)
    note k = canuseoffset_result [OF cu]
    show ?thesis
    proof (cases fl)
      case True
      then show ?thesis using s cu fast [OF cu] by (simp add: sum_jagged_def)
    next
      case False
      have ne: "np_binop (\<lambda>p q. p \<noteq> q) (starts a1) (stops a1) =
          Inr (map2 (\<lambda>p q. p \<noteq> q) (starts a) (stops a))"
        using k len by (simp add: np_binop_def)
      from s False cu ne obtain a2 d where
        v: "valid a1 = Inr a2"
        and pm: "np_put_mask (replicate (length (starts a2)) (np_zero dt))
                   (map2 (\<lambda>p q. p \<noteq> q) (starts a) (stops a)) d = Inr out"
        by (auto simp: sum_jagged_def Let_def dest!: bind_err_InrD)
      have l2: "length (starts a2) = length (starts a)"
        using valid_keeps_starts [OF v] k by simp
      have mi: "\<not> map2 (\<lambda>p q. p \<noteq> q) (starts a) (stops a) ! i"
        using i len e by simp
      show ?thesis
        using np_put_mask_keeps [OF pm _ mi] i l2 by simp
    qed
  qed
  show "prod_jagged dt a = Inr out \<Longrightarrow> out ! i = np_one dt"
  proof -
    assume s: "prod_jagged dt a = Inr out"
    then obtain fl a1 where cu: "canuseoffset a = Inr (fl, a1)"
      by (auto simp: prod_jagged_def dest!: bind_err_InrD)
    show ?thesis
      using s cu fast [OF cu] general [OF cu]
      by (cases fl) (simp_all add: prod_jagged_def)
  qed
  show "min_jagged dt a = Inr out \<Longrightarrow>
           out ! i = (if is_floating dt then np_inf dt else iinfo_max dt)"
  proof -
    assume s: "min_jagged dt a = Inr out"
    then obtain fl a1 where cu: "canuseoffset a = Inr (fl, a1)"
      by (auto simp: min_jagged_def dest!: bind_err_InrD)
    show ?thesis
      using s cu fast [OF cu] general [OF cu]
      by (cases fl)
         (auto simp: min_jagged_def minmax_offset_def minmax_general_def
            split: if_splits dest!: bind_err_InrD)
  qed
  show "max_jagged dt a = Inr out \<Longrightarrow>
           out ! i = (if is_floating dt then np_neginf dt else iinfo_min dt)"
  proof -
    assume s: "max_jagged dt a = Inr out"
    then obtain fl a1 where cu: "canuseoffset a = Inr (fl, a1)"
      by (auto simp: max_jagged_def dest!: bind_err_InrD)
    show ?thesis
      using s cu fast [OF cu] general [OF cu]
      by (cases fl)
         (auto simp: max_jagged_def minmax_offset_def minmax_general_def
            split: if_splits dest!: bind_err_InrD)
  qed
qed

end
